theory Spec2Isabelle
  imports Main "HOL-Library.Word"
begin

unbundle bit_operations_syntax

section \<open>Data model of scrape.go\<close>

text \<open>
  Bytes and the fixed-width unsigned integers of the wire format are words. Go's \<open>int\<close>
  (the retry counter and the retry limit) is the 64-bit two's complement integer of a
  64-bit target: \<open>+\<close> wraps and the comparison \<open>>\<close> of the source is the signed
  comparison \<open><s\<close> read from right to left. Slice lengths are natural numbers; no
  length in this program comes near the range of \<open>int\<close>.
\<close>

type_synonym byte = "8 word"
type_synonym uint32 = "32 word"
type_synonym uint64 = "64 word"
type_synonym go_int = "64 word"

definition pid :: uint64 where
  "pid = 0x41727101980"

definition actionConnect :: uint32 where
  "actionConnect = 0"

definition actionAnnounce :: uint32 where
  "actionAnnounce = 1"

definition actionScrap :: uint32 where
  "actionScrap = 2"

definition actionError :: uint32 where
  "actionError = 3"

text \<open>
  The error values of the package, the two errors of \<open>encoding/hex\<close>, and the errors
  a transport can hand back: a \<open>net.Error\<close> (with the answer of its \<open>Timeout()\<close>
  method) or any other error value. \<open>NilConn\<close> is the run-time panic of a method
  call on a nil \<open>net.Conn\<close>.
\<close>

datatype error =
    ErrUnsupportedScheme
  | ErrTooManyInfohash
  | ErrRequest
  | ErrResponse
  | ErrInvalidAction
  | ErrInvalidTransactionID
  | ErrRemote
  | ErrRetryLimit
  | ErrLength
  | InvalidByteError byte
  | NetError bool string
  | OtherError string
  | NilConn

record ScrapeResult =
  Infohash :: "byte list"
  Seeders :: uint32
  Leechers :: uint32
  Completed :: uint32

text \<open>
  The struct \<open>Goscrape\<close>. A connection is the number of the dial that opened it,
  \<open>None\<close> is the nil interface. A \<open>time.Time\<close> is a number of nanoseconds counted
  from the zero time, so the zero value of the field \<open>session\<close> is \<open>0\<close>. The embedded
  mutex is not modelled: the model runs one call at a time.
\<close>

record Goscrape =
  url :: string
  conn :: "nat option"
  connectionID :: uint64
  session :: int
  retries :: go_int

section \<open>The environment: network, clock and random source\<close>

text \<open>
  Everything the program receives from outside is read from the world: the outcome of
  the k-th dial, of the k-th write (which may depend on the bytes written) and of the
  k-th read, the k-th output of the random source and the k-th reading of the clock.
  The network operations performed so far are recorded in \<open>trace\<close>, oldest first. The
  deadlines the source sets before each write and read only decide which outcome the
  transport reports, and that outcome is the world's; neither the deadlines nor the
  readings of the clock they are computed from are recorded. The readings of the clock
  that count are the one of \<open>time.Since\<close> in \<open>connect\<close> and the one that stamps a new
  session.
\<close>

datatype event =
    is_Dial: Dial string
  | is_Write: Write nat "byte list"
  | is_Read: Read nat nat

record world =
  dial_result :: "nat \<Rightarrow> error option"
  write_result :: "nat \<Rightarrow> byte list \<Rightarrow> int \<times> error option"
  read_result :: "nat \<Rightarrow> byte list \<times> error option"
  rand_uint64 :: "nat \<Rightarrow> uint64"
  now :: "nat \<Rightarrow> int"
  trace :: "event list"
  rand_calls :: nat
  clock_calls :: nat

definition dials :: "event list \<Rightarrow> nat" where
  "dials t = length (filter is_Dial t)"

definition writes :: "event list \<Rightarrow> nat" where
  "writes t = length (filter is_Write t)"

definition reads :: "event list \<Rightarrow> nat" where
  "reads t = length (filter is_Read t)"

text \<open>\<open>net.DialTimeout\<close>: a connection and no error, or nil and an error.\<close>

definition DialTimeout :: "string \<Rightarrow> world \<Rightarrow> (nat option \<times> error option) \<times> world" where
  "DialTimeout addr w =
     (let k = dials (trace w);
          w' = w\<lparr>trace := trace w @ [Dial addr]\<rparr>
      in case dial_result w k of
           None \<Rightarrow> ((Some k, None), w')
         | Some e \<Rightarrow> ((None, Some e), w'))"

text \<open>\<open>conn.Write\<close>: the number of bytes written and the error.\<close>

definition conn_Write :: "nat \<Rightarrow> byte list \<Rightarrow> world \<Rightarrow> (int \<times> error option) \<times> world" where
  "conn_Write c b w =
     (write_result w (writes (trace w)) b, w\<lparr>trace := trace w @ [Write c b]\<rparr>)"

text \<open>
  \<open>conn.Read\<close> into the buffer \<open>b\<close>: the datagram the world delivers overwrites the
  front of the buffer, cut to the buffer's length; the result is the number of bytes
  stored, the error, and the buffer afterwards.
\<close>

definition conn_Read ::
  "nat \<Rightarrow> byte list \<Rightarrow> world \<Rightarrow> (int \<times> error option \<times> byte list) \<times> world" where
  "conn_Read c b w =
     (let r = read_result w (reads (trace w));
          m = min (length (fst r)) (length b)
      in ((int m, snd r, take m (fst r) @ drop m b),
          w\<lparr>trace := trace w @ [Read c (length b)]\<rparr>))"

text \<open>
  The test of the source on a read error:
  \<open>if err, ok := err.(net.Error); ok && err.Timeout()\<close>.
\<close>

definition is_timeout :: "error option \<Rightarrow> bool" where
  "is_timeout err = (case err of Some (NetError t m) \<Rightarrow> t | _ \<Rightarrow> False)"

text \<open>
  The variable \<open>err\<close> which that statement declares, and which is in scope in its
  \<open>else if err != nil\<close> branch: the error as a \<open>net.Error\<close>, nil when \<open>Read\<close>
  returned no error or an error that is no \<open>net.Error\<close>. The branch tests and returns
  this variable, so an error that is no \<open>net.Error\<close> ends the loop like a read without
  error. (The errors of a connection opened by \<open>net.DialTimeout\<close> are all
  \<open>net.Error\<close> values.)
\<close>

definition net_Error :: "error option \<Rightarrow> error option" where
  "net_Error err = (case err of Some (NetError t m) \<Rightarrow> Some (NetError t m) | _ \<Rightarrow> None)"

text \<open>
  \<open>math/rand\<close>: \<open>Int63\<close> masks the source's 64 bits to 63, \<open>Int31\<close> is
  \<open>int32(r.Int63() >> 32)\<close>.
\<close>

definition rand_Int63 :: "world \<Rightarrow> uint64 \<times> world" where
  "rand_Int63 w =
     (rand_uint64 w (rand_calls w) AND mask 63, w\<lparr>rand_calls := Suc (rand_calls w)\<rparr>)"

definition rand_Int31 :: "world \<Rightarrow> uint32 \<times> world" where
  "rand_Int31 w = (let (x, w') = rand_Int63 w in (ucast (signed_drop_bit 32 x), w'))"

text \<open>
  \<open>time.Now\<close>, and \<open>time.Since\<close> with the saturation of \<open>Time.Sub\<close> at the ends of
  the range of a \<open>Duration\<close> (an \<open>int64\<close> of nanoseconds).
\<close>

definition time_Now :: "world \<Rightarrow> int \<times> world" where
  "time_Now w = (now w (clock_calls w), w\<lparr>clock_calls := Suc (clock_calls w)\<rparr>)"

definition time_Sub :: "int \<Rightarrow> int \<Rightarrow> int" where
  "time_Sub t u = max (- (2 ^ 63)) (min (2 ^ 63 - 1) (t - u))"

definition time_Since :: "int \<Rightarrow> world \<Rightarrow> int \<times> world" where
  "time_Since t w = (let (n, w') = time_Now w in (time_Sub n t, w'))"

definition Second :: int where
  "Second = 1000000000"

definition Minute :: int where
  "Minute = 60 * Second"

section \<open>Byte order and hexadecimal decoding\<close>

text \<open>
  \<open>binary.BigEndian\<close>. The slices read and written by the program are cut out of
  buffers made with a fixed size (16 bytes, \<open>16 + 20 * N\<close> and \<open>8 + 12 * N\<close>) at
  offsets that leave room for the whole integer, so the bounds check of the library
  never fires.
\<close>

definition Uint32 :: "byte list \<Rightarrow> uint32" where
  "Uint32 b =
     ucast (b ! 3) OR push_bit 8 (ucast (b ! 2)) OR push_bit 16 (ucast (b ! 1))
       OR push_bit 24 (ucast (b ! 0))"

definition Uint64 :: "byte list \<Rightarrow> uint64" where
  "Uint64 b =
     ucast (b ! 7) OR push_bit 8 (ucast (b ! 6)) OR push_bit 16 (ucast (b ! 5))
       OR push_bit 24 (ucast (b ! 4)) OR push_bit 32 (ucast (b ! 3))
       OR push_bit 40 (ucast (b ! 2)) OR push_bit 48 (ucast (b ! 1))
       OR push_bit 56 (ucast (b ! 0))"

text \<open>\<open>PutUint32 b off v\<close> is \<open>binary.BigEndian.PutUint32(b[off:], v)\<close>.\<close>

definition PutUint32 :: "byte list \<Rightarrow> nat \<Rightarrow> uint32 \<Rightarrow> byte list" where
  "PutUint32 b off v =
     b[off := ucast (drop_bit 24 v), off + 1 := ucast (drop_bit 16 v),
       off + 2 := ucast (drop_bit 8 v), off + 3 := ucast v]"

definition PutUint64 :: "byte list \<Rightarrow> nat \<Rightarrow> uint64 \<Rightarrow> byte list" where
  "PutUint64 b off v =
     b[off := ucast (drop_bit 56 v), off + 1 := ucast (drop_bit 48 v),
       off + 2 := ucast (drop_bit 40 v), off + 3 := ucast (drop_bit 32 v),
       off + 4 := ucast (drop_bit 24 v), off + 5 := ucast (drop_bit 16 v),
       off + 6 := ucast (drop_bit 8 v), off + 7 := ucast v]"

text \<open>\<open>copy_at off b src\<close> is the built-in \<open>copy(b[off:], src)\<close>.\<close>

definition copy_at :: "nat \<Rightarrow> byte list \<Rightarrow> byte list \<Rightarrow> byte list" where
  "copy_at off b src = take off b @ take (length b - off) src @ drop (off + length src) b"

text \<open>
  \<open>encoding/hex\<close>, as in the current library: the table of digit values (\<open>0xff\<close>
  for a byte that is no hexadecimal digit, upper and lower case letters both accepted)
  and \<open>hex.Decode\<close>, which decodes pair by pair, reports the first byte that is no
  digit, and reports an odd length when all bytes are digits. The destination the
  source allocates has exactly the decoded length, so the model returns the decoded
  bytes.
\<close>

definition reverseHexTable :: "byte \<Rightarrow> byte" where
  "reverseHexTable c =
     (if 0x30 \<le> c \<and> c \<le> 0x39 then c - 0x30
      else if 0x61 \<le> c \<and> c \<le> 0x66 then c - 0x61 + 10
      else if 0x41 \<le> c \<and> c \<le> 0x46 then c - 0x41 + 10
      else 0xff)"

fun hex_Decode :: "byte list \<Rightarrow> error + byte list" where
  "hex_Decode (p # q # rest) =
     (let a = reverseHexTable p; b = reverseHexTable q
      in if 0x0f < a then Inl (InvalidByteError p)
         else if 0x0f < b then Inl (InvalidByteError q)
         else (case hex_Decode rest of
                 Inl e \<Rightarrow> Inl e
               | Inr d \<Rightarrow> Inr ((push_bit 4 a OR b) # d)))"
| "hex_Decode [p] =
     (if 0x0f < reverseHexTable p then Inl (InvalidByteError p) else Inl ErrLength)"
| "hex_Decode [] = Inr []"

section \<open>The client\<close>

text \<open>
  \<open>New\<close>, given what \<open>url.Parse\<close> returned: an error, or the scheme and the host of
  the address.
\<close>

definition New :: "error + string \<times> string \<Rightarrow> error + Goscrape" where
  "New parsed =
     (case parsed of
        Inl e \<Rightarrow> Inl e
      | Inr (scheme, host) \<Rightarrow>
          if scheme \<noteq> ''udp'' then Inl ErrUnsupportedScheme
          else Inr \<lparr>url = host, conn = None, connectionID = 0, session = 0, retries = 3\<rparr>)"

definition SetRetryLimit :: "go_int \<Rightarrow> Goscrape \<Rightarrow> Goscrape" where
  "SetRetryLimit n g = g\<lparr>retries := n\<rparr>"

definition transactionID :: "world \<Rightarrow> uint32 \<times> world" where
  "transactionID w = rand_Int31 w"

text \<open>
  The write-and-read loop of \<open>connect\<close> (lines 119 to 147). The response is read into
  the buffer that holds the request. The result is \<open>None\<close> when the loop never ends.
\<close>

partial_function (option) connect_loop ::
  "go_int \<Rightarrow> nat \<Rightarrow> byte list \<Rightarrow> go_int \<Rightarrow> world
     \<Rightarrow> ((error + int \<times> byte list) \<times> world) option" where
  "connect_loop lim c buf r w =
     (let r = r + 1;
          wr = conn_Write c buf w
      in if snd (fst wr) \<noteq> None then Some (Inl (the (snd (fst wr))), snd wr)
         else if fst (fst wr) \<noteq> int (length buf) then Some (Inl ErrRequest, snd wr)
         else
           (let rd = conn_Read c buf (snd wr);
                n = fst (fst rd);
                err = fst (snd (fst rd));
                buf = snd (snd (fst rd))
            in if is_timeout err then
                 (if lim <s r then Some (Inl ErrRetryLimit, snd rd)
                  else connect_loop lim c buf r (snd rd))
               else if net_Error err \<noteq> None
                 then Some (Inl (the (net_Error err)), snd rd)
               else Some (Inr (n, buf), snd rd)))"

declare connect_loop.simps [code]

text \<open>
  \<open>connect\<close>. The result is the returned pair or error, the struct afterwards and the
  world afterwards.
\<close>

definition connect ::
  "Goscrape \<Rightarrow> world \<Rightarrow> ((error + nat option \<times> uint64) \<times> Goscrape \<times> world) option" where
  "connect g w =
     (let (since, w) = time_Since (session g) w
      in if Minute < since then
           (let (tid, w) = transactionID w;
                buf = replicate 16 0;
                buf = PutUint64 buf 0 pid;
                buf = PutUint32 buf 8 0;
                buf = PutUint32 buf 12 tid;
                ((c, err), w) = DialTimeout (url g) w;
                g = g\<lparr>conn := c\<rparr>
            in if err \<noteq> None then Some (Inl (the err), g, w)
               else
                 (case connect_loop (retries g) (the (conn g)) buf 0 w of
                    None \<Rightarrow> None
                  | Some (Inl e, w) \<Rightarrow> Some (Inl e, g, w)
                  | Some (Inr (n, buf), w) \<Rightarrow>
                      if n \<noteq> int (length buf) then Some (Inl ErrResponse, g, w)
                      else if Uint32 (drop 0 buf) \<noteq> actionConnect
                        then Some (Inl ErrInvalidAction, g, w)
                      else
                        (let tid = Uint32 (drop 4 buf)
                         in if tid \<noteq> tid then Some (Inl ErrInvalidTransactionID, g, w)
                            else
                              (let g = g\<lparr>connectionID := Uint64 (drop 8 buf)\<rparr>;
                                   (t, w) = time_Now w;
                                   g = g\<lparr>session := t\<rparr>
                               in Some (Inr (conn g, connectionID g), g, w)))))
         else Some (Inr (conn g, connectionID g), g, w))"

text \<open>
  The write-and-read loop of \<open>Scrape\<close> (lines 204 to 234). The connection is the one
  \<open>connect\<close> returned; the first method call on a nil connection panics.
\<close>

partial_function (option) Scrape_loop ::
  "go_int \<Rightarrow> nat option \<Rightarrow> byte list \<Rightarrow> byte list \<Rightarrow> go_int \<Rightarrow> world
     \<Rightarrow> ((error + int \<times> byte list) \<times> world) option" where
  "Scrape_loop lim c buf response r w =
     (let r = r + 1
      in if c = None then Some (Inl NilConn, w)
         else
           (let wr = conn_Write (the c) buf w
            in if snd (fst wr) \<noteq> None then Some (Inl (the (snd (fst wr))), snd wr)
               else if fst (fst wr) \<noteq> int (length buf) then Some (Inl ErrRequest, snd wr)
               else
                 (let rd = conn_Read (the c) response (snd wr);
                      n = fst (fst rd);
                      err = fst (snd (fst rd));
                      response = snd (snd (fst rd))
                  in if is_timeout err then
                       (if lim <s r then Some (Inl ErrRetryLimit, snd rd)
                        else Scrape_loop lim c buf response r (snd rd))
                     else if net_Error err \<noteq> None
                       then Some (Inl (the (net_Error err)), snd rd)
                     else Some (Inr (n, response), snd rd))))"

declare Scrape_loop.simps [code]

text \<open>The loop that fills the result slice (lines 256 to 265).\<close>

fun decode_results :: "byte list list \<Rightarrow> byte list \<Rightarrow> nat \<Rightarrow> ScrapeResult list" where
  "decode_results [] response offset = []"
| "decode_results (h # hs) response offset =
     \<lparr>Infohash = h,
      Seeders = Uint32 (drop offset response),
      Leechers = Uint32 (drop (offset + 8) response),
      Completed = Uint32 (drop (offset + 4) response)\<rparr>
     # decode_results hs response (offset + 12)"

text \<open>\<open>Scrape\<close>. \<open>bytes.Join\<close> with the empty separator is \<open>concat\<close>.\<close>

definition Scrape ::
  "byte list list \<Rightarrow> Goscrape \<Rightarrow> world
     \<Rightarrow> ((error + ScrapeResult list) \<times> Goscrape \<times> world) option" where
  "Scrape infohash g w =
     (if 74 < length infohash then Some (Inl ErrTooManyInfohash, g, w)
      else
        (case connect g w of
           None \<Rightarrow> None
         | Some (Inl e, g, w) \<Rightarrow> Some (Inl e, g, w)
         | Some (Inr (c, connectionid), g, w) \<Rightarrow>
             (let (tid, w) = transactionID w;
                  buf = replicate (16 + length infohash * 20) 0;
                  buf = PutUint64 buf 0 connectionid;
                  buf = PutUint32 buf 8 2;
                  buf = PutUint32 buf 12 tid;
                  src = concat infohash
              in case hex_Decode src of
                   Inl e \<Rightarrow> Some (Inl e, g, w)
                 | Inr dst \<Rightarrow>
                     (let buf = copy_at 16 buf dst;
                          response = replicate (8 + 12 * length infohash) 0
                      in case Scrape_loop (retries g) c buf response 0 w of
                           None \<Rightarrow> None
                         | Some (Inl e, w) \<Rightarrow> Some (Inl e, g, w)
                         | Some (Inr (n, response), w) \<Rightarrow>
                             if n < int (8 + 12 * length infohash)
                               then Some (Inl ErrResponse, g, w)
                             else
                               (let action = Uint32 (drop 0 response)
                                in if Uint32 (drop 4 response) \<noteq> tid
                                     then Some (Inl ErrInvalidTransactionID, g, w)
                                   else if action = actionError then Some (Inl ErrRemote, g, w)
                                   else if action \<noteq> actionScrap
                                     then Some (Inl ErrInvalidAction, g, w)
                                   else Some (Inr (decode_results infohash response 8), g, w))))))"

section \<open>Names for parts of the program\<close>

text \<open>
  The definitions of this section are not functions of the source. They name values the
  source computes inline, so that statements about \<open>connect\<close> and \<open>Scrape\<close> can
  mention them: the age \<open>time.Since(g.session)\<close> that \<open>connect\<close> compares with one
  minute, the two request datagrams, and a world after further network events, calls of
  the random source and readings of the clock.
\<close>

definition age :: "Goscrape \<Rightarrow> world \<Rightarrow> int" where
  "age g w = time_Sub (now w (clock_calls w)) (session g)"

definition connect_request :: "uint32 \<Rightarrow> byte list" where
  "connect_request tid = PutUint32 (PutUint32 (PutUint64 (replicate 16 0) 0 pid) 8 0) 12 tid"

definition scrape_request :: "uint64 \<Rightarrow> uint32 \<Rightarrow> nat \<Rightarrow> byte list \<Rightarrow> byte list" where
  "scrape_request cid tid n dst =
     copy_at 16
       (PutUint32 (PutUint32 (PutUint64 (replicate (16 + n * 20) 0) 0 cid) 8 2) 12 tid) dst"

definition more_trace :: "world \<Rightarrow> event list \<Rightarrow> world" where
  "more_trace w evs = w\<lparr>trace := trace w @ evs\<rparr>"

definition advance :: "world \<Rightarrow> event list \<Rightarrow> nat \<Rightarrow> nat \<Rightarrow> world" where
  "advance w evs rc cc =
     w\<lparr>trace := trace w @ evs, rand_calls := rand_calls w + rc,
       clock_calls := clock_calls w + cc\<rparr>"

text \<open>
  What a returning run of either loop guarantees: the world has only gained network
  events, none of them a dial and the first of them the write of the request; and when
  the loop ends with a response, that response is what the last read stored, and
  that read returned no \<open>net.Error\<close>.
\<close>

definition Scrape_loop_post ::
  "nat option \<Rightarrow> byte list \<Rightarrow> byte list \<Rightarrow> world
     \<Rightarrow> (error + int \<times> byte list) \<times> world \<Rightarrow> bool" where
  "Scrape_loop_post c buf resp w y =
     (\<exists>evs. snd y = more_trace w evs \<and> dials evs = 0 \<and>
        (c \<noteq> None \<longrightarrow> (\<exists>evs'. evs = Write (the c) buf # evs')) \<and>
        (\<forall>n resp'. fst y = Inr (n, resp') \<longrightarrow>
           0 < reads evs \<and>
           net_Error (snd (read_result w (reads (trace w @ evs) - 1))) = None \<and>
           (\<exists>b. length b = length resp \<and>
              n = int (min (length (fst (read_result w (reads (trace w @ evs) - 1))))
                           (length resp)) \<and>
              resp' = take (nat n) (fst (read_result w (reads (trace w @ evs) - 1)))
                        @ drop (nat n) b)))"

definition connect_loop_post ::
  "nat \<Rightarrow> byte list \<Rightarrow> world \<Rightarrow> (error + int \<times> byte list) \<times> world \<Rightarrow> bool" where
  "connect_loop_post cn buf w y =
     (\<exists>evs. snd y = more_trace w (Write cn buf # evs) \<and> dials evs = 0 \<and>
        (\<forall>n buf'. fst y = Inr (n, buf') \<longrightarrow>
           0 < reads evs \<and>
           net_Error (snd (read_result w (reads (trace w @ evs) - 1))) = None \<and>
           (\<exists>b. length b = length buf \<and>
              n = int (min (length (fst (read_result w (reads (trace w @ evs) - 1))))
                           (length buf)) \<and>
              buf' = take (nat n) (fst (read_result w (reads (trace w @ evs) - 1)))
                       @ drop (nat n) b)))"

text \<open>The largest value of Go's \<open>int\<close>.\<close>

definition max_int :: go_int where
  "max_int = 0x7FFFFFFFFFFFFFFF"

section \<open>Example inputs\<close>

text \<open>
  Inputs for the concrete instances below: the ASCII bytes of a string, the struct that
  \<open>New\<close> returns for \<open>udp://tracker.example:6969/announce\<close>, and a world in which
  the tracker answers the first read with a connect response and the second with a
  scrape response for two infohashes, both echoing the transaction ID \<open>0x12345678\<close>
  that the random source produces.
\<close>

definition bytes_of :: "string \<Rightarrow> byte list" where
  "bytes_of s = map (\<lambda>c. of_nat (of_char c)) s"

definition tracker0 :: Goscrape where
  "tracker0 =
     \<lparr>url = ''tracker.example:6969'', conn = None, connectionID = 0, session = 0,
      retries = 3\<rparr>"

definition connect_response0 :: "byte list" where
  "connect_response0 = [0, 0, 0, 0, 0x12, 0x34, 0x56, 0x78, 1, 2, 3, 4, 5, 6, 7, 8]"

definition scrape_response0 :: "byte list" where
  "scrape_response0 =
     [0, 0, 0, 2, 0x12, 0x34, 0x56, 0x78,
      0, 0, 0, 10, 0, 0, 0, 50, 0, 0, 0, 2,
      0, 0, 0, 20, 0, 0, 0, 100, 0, 0, 0, 4]"

definition world0 :: world where
  "world0 =
     \<lparr>dial_result = (\<lambda>k. None),
      write_result = (\<lambda>k b. (int (length b), None)),
      read_result = (\<lambda>k. if k = 0 then (connect_response0, None) else (scrape_response0, None)),
      rand_uint64 = (\<lambda>k. 0x123456789ABCDEF0),
      now = (\<lambda>k. 100 * Minute),
      trace = [], rand_calls = 0, clock_calls = 0\<rparr>"

definition infohashes0 :: "byte list list" where
  "infohashes0 =
     [bytes_of ''176e2a9696092482d4acdef445b53ffcebb56960'',
      bytes_of ''e80cb87fbd938f3b1e47db64c10c3ab04ad49987'']"

definition results0 :: "ScrapeResult list" where
  "results0 =
     [\<lparr>Infohash = bytes_of ''176e2a9696092482d4acdef445b53ffcebb56960'',
       Seeders = 10, Leechers = 2, Completed = 50\<rparr>,
      \<lparr>Infohash = bytes_of ''e80cb87fbd938f3b1e47db64c10c3ab04ad49987'',
       Seeders = 20, Leechers = 4, Completed = 100\<rparr>]"

text \<open>
  A struct with an established session (timestamp 100 minutes after the zero time), and
  worlds whose clock reads 60 seconds and 30 seconds after that timestamp; a world in
  which every read times out; and a world in which the first read times out and the
  second delivers the scrape response.
\<close>

definition tracker1 :: Goscrape where
  "tracker1 =
     \<lparr>url = ''tracker.example:6969'', conn = Some 0, connectionID = 0x0102030405060708,
      session = 100 * Minute, retries = 3\<rparr>"

definition world60 :: world where
  "world60 = world0\<lparr>now := (\<lambda>k. 101 * Minute)\<rparr>"

definition world30 :: world where
  "world30 = world0\<lparr>now := (\<lambda>k. 100 * Minute + 30 * Second)\<rparr>"

definition timeout_error :: error where
  "timeout_error = NetError True ''i/o timeout''"

definition world_timeouts :: world where
  "world_timeouts = world0\<lparr>read_result := (\<lambda>k. ([], Some timeout_error))\<rparr>"

definition world_retry :: world where
  "world_retry =
     world30\<lparr>read_result :=
       (\<lambda>k. if k = 0 then ([], Some timeout_error) else (scrape_response0, None))\<rparr>"

definition world30_timeouts :: world where
  "world30_timeouts = world30\<lparr>read_result := (\<lambda>k. ([], Some timeout_error))\<rparr>"

text \<open>
  A transport error that is no timeout, and worlds in which the first attempt of an
  exchange times out and the second one meets a failing write, a short write or a
  failing read. Last, a world whose connect response echoes a transaction ID other than
  the one sent.
\<close>

definition refused_error :: error where
  "refused_error = NetError False ''connection refused''"

definition world_write_fails :: world where
  "world_write_fails =
     world_retry\<lparr>write_result :=
       (\<lambda>k b. if k = 0 then (int (length b), None) else (0, Some refused_error))\<rparr>"

definition world_short_write :: world where
  "world_short_write =
     world_retry\<lparr>write_result :=
       (\<lambda>k b. if k = 0 then (int (length b), None) else (int (length b) - 1, None))\<rparr>"

definition world_read_fails :: world where
  "world_read_fails =
     world_retry\<lparr>read_result :=
       (\<lambda>k. if k = 0 then ([], Some timeout_error) else ([], Some refused_error))\<rparr>"

definition bad_connect_response :: "byte list" where
  "bad_connect_response = [0, 0, 0, 0, 0xDE, 0xAD, 0xBE, 0xEF, 1, 2, 3, 4, 5, 6, 7, 8]"

definition world_other_tid :: world where
  "world_other_tid = world0\<lparr>read_result := (\<lambda>k. (bad_connect_response, None))\<rparr>"


text \<open>
  Worlds for a renewal on the established session of \<open>tracker1\<close>: the clock reads two
  minutes after its timestamp and one second more at each further reading, the first
  read times out and the second delivers a connect response with a new connection ID.
  Then the same world with a failing dial, a world whose connect response echoes another
  transaction ID and carries a new connection ID, and a world with a fresh session in
  which every write fails.
\<close>

definition connect_response1 :: "byte list" where
  "connect_response1 =
     [0, 0, 0, 0, 0x12, 0x34, 0x56, 0x78, 0x11, 0x12, 0x13, 0x14, 0x15, 0x16, 0x17, 0x18]"

definition world_renew :: world where
  "world_renew =
     world0\<lparr>now := (\<lambda>k. 102 * Minute + int k * Second),
       read_result :=
         (\<lambda>k. if k = 0 then ([], Some timeout_error) else (connect_response1, None))\<rparr>"

definition world_dial_fails :: world where
  "world_dial_fails = world_renew\<lparr>dial_result := (\<lambda>k. Some refused_error)\<rparr>"

definition other_tid_response :: "byte list" where
  "other_tid_response =
     [0, 0, 0, 0, 0xDE, 0xAD, 0xBE, 0xEF, 0x21, 0x22, 0x23, 0x24, 0x25, 0x26, 0x27, 0x28]"

definition world_renew_other_tid :: world where
  "world_renew_other_tid =
     world0\<lparr>now := (\<lambda>k. 102 * Minute + int k * Second),
       read_result := (\<lambda>k. (other_tid_response, None))\<rparr>"

definition world_no_write :: world where
  "world_no_write = world30\<lparr>write_result := (\<lambda>k b. (0, Some refused_error))\<rparr>"
section \<open>Auxiliary facts\<close>

subsection \<open>Words, bytes and durations\<close>

text \<open>
  The retry counter does not wrap below the largest \<open>int\<close>, and no \<open>int\<close> exceeds
  the largest one. Reading a big-endian integer needs only the bytes it covers, and
  reading back what \<open>PutUint32\<close> wrote gives the value written.
\<close>

lemma sint_Suc: "sint (r::64 word) < 2^63 - 1 \<Longrightarrow> sint (r + 1) = sint r + 1"
proof -
  assume a: "sint r < 2^63 - 1"
  have b: "- (2^63) \<le> sint r" using sint_ge[of r] by simp
  have "sint (r + 1) = signed_take_bit 63 (sint r + 1)" by (simp add: sint_word_ariths)
  also have "\<dots> = sint r + 1" using a b by (simp add: signed_take_bit_int_eq_self)
  finally show ?thesis .
qed

lemma of_nat_nat_sint: "0 \<le> sint (x :: 64 word) \<Longrightarrow> of_nat (nat (sint x)) = x"
  by simp

lemma not_sless_max_int: "\<not> max_int <s x"
proof -
  have "sint x \<le> 2 ^ 63 - 1" using sint_lt [of x] by simp
  moreover have "sint max_int = 2 ^ 63 - 1" by (simp add: max_int_def)
  ultimately show ?thesis by (simp add: word_sless_alt)
qed

lemma length_PutUint32 [simp]: "length (PutUint32 b off v) = length b"
  by (simp add: PutUint32_def)

lemma length_PutUint64 [simp]: "length (PutUint64 b off v) = length b"
  by (simp add: PutUint64_def)

lemma Uint32_take: "4 \<le> n \<Longrightarrow> Uint32 (take n d) = Uint32 d"
  by (simp add: Uint32_def)

lemma Uint64_take: "8 \<le> n \<Longrightarrow> Uint64 (take n d) = Uint64 d"
  by (simp add: Uint64_def)

lemma Uint32_drop_take: "k + 4 \<le> n \<Longrightarrow> Uint32 (drop k (take n d)) = Uint32 (drop k d)"
  by (simp add: drop_take Uint32_take)

lemma Uint64_drop_take: "k + 8 \<le> n \<Longrightarrow> Uint64 (drop k (take n d)) = Uint64 (drop k d)"
  by (simp add: drop_take Uint64_take)

lemma be32_bytes:
  "ucast (ucast v :: byte) OR push_bit 8 (ucast (ucast (drop_bit 8 v) :: byte))
     OR push_bit 16 (ucast (ucast (drop_bit 16 v) :: byte))
     OR push_bit 24 (ucast (ucast (drop_bit 24 v) :: byte)) = (v :: uint32)"
proof (rule bit_word_eqI, goal_cases)
  case (1 n)
  then consider "n < 8" | "8 \<le> n \<and> n < 16" | "16 \<le> n \<and> n < 24" | "24 \<le> n \<and> n < 32"
    by fastforce
  then show ?case by cases (auto simp: bit_simps)
qed

lemma Uint32_PutUint32:
  assumes "off + 4 \<le> length b"
  shows "Uint32 (drop off (PutUint32 b off v)) = v"
proof -
  have "Uint32 (drop off (PutUint32 b off v)) =
     ucast (ucast v :: byte) OR push_bit 8 (ucast (ucast (drop_bit 8 v) :: byte))
     OR push_bit 16 (ucast (ucast (drop_bit 16 v) :: byte))
     OR push_bit 24 (ucast (ucast (drop_bit 24 v) :: byte))"
    using assms by (simp add: Uint32_def PutUint32_def nth_list_update)
  then show ?thesis by (simp only: be32_bytes)
qed

lemma Uint32_example: "Uint32 [0x12, 0x34, 0x56, 0x78] = 0x12345678"
  by (simp add: Uint32_def)

lemma time_Sub_mono: "t \<le> t' \<Longrightarrow> time_Sub t u \<le> time_Sub t' u"
  by (simp add: time_Sub_def)

subsection \<open>Traces and worlds\<close>

text \<open>
  The operations on the world only append events and count calls; the outcomes the world
  holds in store are never changed.
\<close>

lemma evs_simps:
  "writes (a @ b) = writes a + writes b" "reads (a @ b) = reads a + reads b" "dials (a @ b) = dials a + dials b"
  "writes [] = 0"  "reads [] = 0" "dials [] = 0"
  "writes (e # a) = (if is_Write e then 1 else 0) + writes a"
  "reads (e # a) = (if is_Read e then 1 else 0) + reads a"
  "dials (e # a) = (if is_Dial e then 1 else 0) + dials a"
  by (simp_all add: writes_def reads_def dials_def)

lemma more_trace_simps:
  "dial_result (more_trace w evs) = dial_result w"
  "write_result (more_trace w evs) = write_result w"
  "read_result (more_trace w evs) = read_result w"
  "rand_uint64 (more_trace w evs) = rand_uint64 w"
  "now (more_trace w evs) = now w"
  "rand_calls (more_trace w evs) = rand_calls w"
  "clock_calls (more_trace w evs) = clock_calls w"
  "trace (more_trace w evs) = trace w @ evs"
  "more_trace (more_trace w evs) evs' = more_trace w (evs @ evs')"
  "more_trace w [] = w"
  by (simp_all add: more_trace_def)

lemma advance_simps:
  "dial_result (advance w evs rc cc) = dial_result w"
  "write_result (advance w evs rc cc) = write_result w"
  "read_result (advance w evs rc cc) = read_result w"
  "rand_uint64 (advance w evs rc cc) = rand_uint64 w"
  "now (advance w evs rc cc) = now w"
  "rand_calls (advance w evs rc cc) = rand_calls w + rc"
  "clock_calls (advance w evs rc cc) = clock_calls w + cc"
  "trace (advance w evs rc cc) = trace w @ evs"
  "advance (advance w evs rc cc) evs' rc' cc' = advance w (evs @ evs') (rc + rc') (cc + cc')"
  "more_trace (advance w evs rc cc) evs' = advance w (evs @ evs') rc cc"
  "advance w [] 0 0 = w"
  "more_trace w evs = advance w evs 0 0"
  by (simp_all add: advance_def more_trace_def add.assoc)

lemma time_Now_advance: "time_Now w = (now w (clock_calls w), advance w [] 0 1)"
  by (simp add: time_Now_def advance_def)

lemma time_Since_advance: "time_Since (session g) w = (age g w, advance w [] 0 1)"
  by (simp add: time_Since_def time_Now_advance age_def)

lemma transactionID_advance: "snd (transactionID w) = advance w [] 1 0"
  by (simp add: transactionID_def rand_Int31_def rand_Int63_def advance_def)

lemma fst_transactionID_advance [simp]:
  "fst (transactionID (advance w evs rc 0)) = fst (transactionID (advance w [] rc 0))"
  "fst (transactionID (advance w evs 0 cc)) = fst (transactionID w)"
  by (simp_all add: transactionID_def rand_Int31_def rand_Int63_def advance_def)

lemma DialTimeout_advance:
  "DialTimeout addr w =
     ((case dial_result w (dials (trace w)) of None \<Rightarrow> (Some (dials (trace w)), None)
        | Some e \<Rightarrow> (None, Some e)), advance w [Dial addr] 0 0)"
  by (simp add: DialTimeout_def advance_def Let_def split: option.splits)

lemma option_fst_resultE:
  assumes "map_option fst x = Some a"
  obtains g' w' where "x = Some (a, g', w')"
  using assms by (cases x) auto

subsection \<open>Hexadecimal decoding\<close>

text \<open>
  \<open>hex_Decode\<close> fails exactly on input of odd length or with a byte that is no
  hexadecimal digit, and then with \<open>ErrLength\<close> or with \<open>InvalidByteError\<close> of a
  byte of the input.
\<close>

lemma hex_Decode_Inl_iff:
  "(\<exists>e. hex_Decode s = Inl e) \<longleftrightarrow>
     odd (length s) \<or> (\<exists>b\<in>set s. 0x0f < reverseHexTable b)"
  by (induction s rule: hex_Decode.induct) (auto simp: Let_def split: sum.splits)

lemma hex_Decode_error_kind:
  "hex_Decode s = Inl e \<Longrightarrow> e = ErrLength \<or> (\<exists>b\<in>set s. e = InvalidByteError b)"
  by (induction s arbitrary: e rule: hex_Decode.induct)
     (auto simp: Let_def split: sum.splits if_splits)

lemma length_hex_Decode:
  "hex_Decode s = Inr d \<Longrightarrow> length d = length s div 2"
  by (induction s arbitrary: d rule: hex_Decode.induct)
     (auto simp: Let_def split: sum.splits if_splits)

subsection \<open>The loop of Scrape\<close>

text \<open>
  One attempt that times out either ends the loop with \<open>ErrRetryLimit\<close> or leads to
  the next attempt; \<open>m\<close> timed-out attempts within the limit lead to attempt
  \<open>m + 1\<close>, with \<open>m\<close> writes and \<open>m\<close> reads performed. Any attempt ends the loop
  when its write fails or is short, when its read returns a \<open>net.Error\<close> that is no
  timeout, or when its read returns data. When every read times out, the loop ends after
  \<open>max 1 (lim + 1)\<close> attempts if \<open>lim\<close> is not the largest \<open>int\<close>, and never ends
  if it is.
\<close>

lemma Scrape_loop_timeout_step:
  assumes "write_result w (writes (trace w)) buf = (int (length buf), None)"
    and "is_timeout (snd (read_result w (reads (trace w))))"
  shows "\<exists>resp'. length resp' = length resp \<and>
     Scrape_loop lim (Some cn) buf resp r w =
       (if lim <s r + 1
        then Some (Inl ErrRetryLimit, more_trace w [Write cn buf, Read cn (length resp)])
        else Scrape_loop lim (Some cn) buf resp' (r + 1)
               (more_trace w [Write cn buf, Read cn (length resp)]))"
proof -
  let ?d = "fst (read_result w (reads (trace w)))"
  let ?m = "min (length ?d) (length resp)"
  let ?resp = "take ?m ?d @ drop ?m resp"
  have "length ?resp = length resp" by simp
  moreover have "Scrape_loop lim (Some cn) buf resp r w =
       (if lim <s r + 1
        then Some (Inl ErrRetryLimit, more_trace w [Write cn buf, Read cn (length resp)])
        else Scrape_loop lim (Some cn) buf ?resp (r + 1)
               (more_trace w [Write cn buf, Read cn (length resp)]))"
    using assms
    by (subst Scrape_loop.simps)
       (simp add: conn_Write_def conn_Read_def Let_def more_trace_def evs_simps)
  ultimately show ?thesis by blast
qed

lemma Scrape_loop_timeouts:
  assumes "\<forall>j<m. write_result w (writes (trace w) + j) buf = (int (length buf), None)"
    and "\<forall>j<m. is_timeout (snd (read_result w (reads (trace w) + j)))"
    and "m = 0 \<or> sint r + int m \<le> sint lim"
  shows "\<exists>resp' evs. length resp' = length resp \<and> writes evs = m \<and> reads evs = m \<and>
     dials evs = 0 \<and>
     Scrape_loop lim (Some cn) buf resp r w =
       Scrape_loop lim (Some cn) buf resp' (r + of_nat m) (more_trace w evs)"
  using assms
proof (induction m arbitrary: r w resp)
  case 0
  have "Scrape_loop lim (Some cn) buf resp r w =
       Scrape_loop lim (Some cn) buf resp (r + of_nat 0) (more_trace w [])"
    by (simp add: more_trace_simps)
  then show ?case by (metis evs_simps(4,5,6))
next
  case (Suc m)
  let ?w1 = "more_trace w [Write cn buf, Read cn (length resp)]"
  have w0: "write_result w (writes (trace w)) buf = (int (length buf), None)"
    using Suc.prems(1) by (metis add.right_neutral zero_less_Suc)
  have r0: "is_timeout (snd (read_result w (reads (trace w))))"
    using Suc.prems(2) by (metis add.right_neutral zero_less_Suc)
  have lt: "sint r < sint lim" using Suc.prems(3) by simp
  have "sint lim \<le> 2^63 - 1" using sint_lt[of lim] by simp
  with lt have s1: "sint (r + 1) = sint r + 1" by (simp add: sint_Suc)
  have nolim: "\<not> lim <s r + 1" using lt s1 by (simp add: word_sless_alt)
  from Scrape_loop_timeout_step[OF w0 r0, of resp lim cn r] nolim
  obtain resp1 where l1: "length resp1 = length resp"
    and e1: "Scrape_loop lim (Some cn) buf resp r w = Scrape_loop lim (Some cn) buf resp1 (r + 1) ?w1"
    by auto
  have "\<And>j. j < m \<Longrightarrow> write_result w (writes (trace w) + Suc j) buf = (int (length buf), None)"
    using Suc.prems(1) by (meson Suc_less_eq)
  then have a1: "\<forall>j<m. write_result ?w1 (writes (trace ?w1) + j) buf = (int (length buf), None)"
    by (simp add: more_trace_simps evs_simps)
  have "\<And>j. j < m \<Longrightarrow> is_timeout (snd (read_result w (reads (trace w) + Suc j)))"
    using Suc.prems(2) by (meson Suc_less_eq)
  then have a2: "\<forall>j<m. is_timeout (snd (read_result ?w1 (reads (trace ?w1) + j)))"
    by (simp add: more_trace_simps evs_simps)
  have a3: "m = 0 \<or> sint (r + 1) + int m \<le> sint lim" using Suc.prems(3) s1 by simp
  from Suc.IH[OF a1 a2 a3, of resp1]
  obtain resp' evs where l2: "length resp' = length resp1" and c: "writes evs = m" "reads evs = m" "dials evs = 0"
    and e2: "Scrape_loop lim (Some cn) buf resp1 (r + 1) ?w1 =
       Scrape_loop lim (Some cn) buf resp' (r + 1 + of_nat m) (more_trace ?w1 evs)"
    by blast
  let ?evs = "[Write cn buf, Read cn (length resp)] @ evs"
  have "Scrape_loop lim (Some cn) buf resp r w =
       Scrape_loop lim (Some cn) buf resp' (r + of_nat (Suc m)) (more_trace w ?evs)"
  proof -
    have "r + 1 + of_nat m = r + of_nat (Suc m)" by simp
    then show ?thesis using e1 e2 by (simp only: more_trace_simps)
  qed
  moreover have "writes ?evs = Suc m" "reads ?evs = Suc m" "dials ?evs = 0"
    using c by (simp_all add: evs_simps)
  moreover have "length resp' = length resp" using l1 l2 by simp
  ultimately show ?case by blast
qed

lemma Scrape_loop_write_error:
  assumes "snd (write_result w (writes (trace w)) buf) = Some e"
  shows "Scrape_loop lim (Some cn) buf resp r w = Some (Inl e, more_trace w [Write cn buf])"
  using assms
  by (subst Scrape_loop.simps) (simp add: conn_Write_def Let_def more_trace_def)

lemma Scrape_loop_short_write:
  assumes "write_result w (writes (trace w)) buf = (n, None)" and "n \<noteq> int (length buf)"
  shows "Scrape_loop lim (Some cn) buf resp r w
           = Some (Inl ErrRequest, more_trace w [Write cn buf])"
  using assms
  by (subst Scrape_loop.simps) (simp add: conn_Write_def Let_def more_trace_def)

lemma Scrape_loop_read_error:
  assumes "write_result w (writes (trace w)) buf = (int (length buf), None)"
    and "snd (read_result w (reads (trace w))) = Some (NetError False msg)"
  shows "Scrape_loop lim (Some cn) buf resp r w
           = Some (Inl (NetError False msg),
                   more_trace w [Write cn buf, Read cn (length resp)])"
  using assms
  by (subst Scrape_loop.simps)
     (simp add: conn_Write_def conn_Read_def Let_def more_trace_def evs_simps is_timeout_def
        net_Error_def)

lemma Scrape_loop_read_ok:
  assumes "write_result w (writes (trace w)) buf = (int (length buf), None)"
    and "read_result w (reads (trace w)) = (d, None)"
  shows "Scrape_loop lim (Some cn) buf resp r w
           = Some (Inr (int (min (length d) (length resp)),
                        take (min (length d) (length resp)) d
                          @ drop (min (length d) (length resp)) resp),
                   more_trace w [Write cn buf, Read cn (length resp)])"
  using assms
  by (subst Scrape_loop.simps)
     (simp add: conn_Write_def conn_Read_def Let_def more_trace_def evs_simps is_timeout_def
        net_Error_def)

lemma Scrape_loop_limit:
  assumes "write_result w (writes (trace w)) buf = (int (length buf), None)"
    and "is_timeout (snd (read_result w (reads (trace w))))"
    and "lim <s r + 1"
  shows "Scrape_loop lim (Some cn) buf resp r w
           = Some (Inl ErrRetryLimit, more_trace w [Write cn buf, Read cn (length resp)])"
  using Scrape_loop_timeout_step [OF assms(1,2), of resp lim cn r] assms(3) by auto

lemma Scrape_loop_exhaust:
  assumes wr: "\<forall>j. write_result w (writes (trace w) + j) buf = (int (length buf), None)"
    and rd: "\<forall>j. is_timeout (snd (read_result w (reads (trace w) + j)))"
    and lim: "sint lim < 2 ^ 63 - 1"
  shows "\<exists>evs. Scrape_loop lim (Some cn) buf resp 0 w = Some (Inl ErrRetryLimit, more_trace w evs)
           \<and> writes evs = nat (max 1 (sint lim + 1)) \<and> reads evs = nat (max 1 (sint lim + 1))
           \<and> dials evs = 0"
proof (cases "sint lim < 0")
  case True
  have w0: "write_result w (writes (trace w)) buf = (int (length buf), None)"
    using wr by (metis add.right_neutral)
  have r0: "is_timeout (snd (read_result w (reads (trace w))))"
    using rd by (metis add.right_neutral)
  have "lim <s 0 + 1" using True by (simp add: word_sless_alt)
  from Scrape_loop_limit [OF w0 r0 this, of cn resp]
  have "Scrape_loop lim (Some cn) buf resp 0 w
          = Some (Inl ErrRetryLimit, more_trace w [Write cn buf, Read cn (length resp)])" .
  moreover have "nat (max 1 (sint lim + 1)) = 1" using True by simp
  ultimately show ?thesis by (intro exI[of _ "[Write cn buf, Read cn (length resp)]"]) (simp add: evs_simps)
next
  case False
  define m where "m = nat (sint lim)"
  have m: "int m = sint lim" using False by (simp add: m_def)
  have a1: "\<forall>j<m. write_result w (writes (trace w) + j) buf = (int (length buf), None)"
    using wr by simp
  have a2: "\<forall>j<m. is_timeout (snd (read_result w (reads (trace w) + j)))"
    using rd by simp
  have a3: "m = 0 \<or> sint (0 :: 64 word) + int m \<le> sint lim" using m by simp
  from Scrape_loop_timeouts [OF a1 a2 a3, of resp cn]
  obtain resp' evs where l: "length resp' = length resp"
    and c: "writes evs = m" "reads evs = m" "dials evs = 0"
    and e: "Scrape_loop lim (Some cn) buf resp 0 w
              = Scrape_loop lim (Some cn) buf resp' (0 + of_nat m) (more_trace w evs)"
    by blast
  have r: "(0 :: 64 word) + of_nat m = lim" using False by (simp add: m_def)
  let ?w = "more_trace w evs"
  have w1: "write_result ?w (writes (trace ?w)) buf = (int (length buf), None)"
    using wr c by (simp add: more_trace_simps evs_simps)
  have r1: "is_timeout (snd (read_result ?w (reads (trace ?w))))"
    using rd c by (simp add: more_trace_simps evs_simps)
  have "lim <s lim + 1" using sint_Suc [OF lim] by (simp add: word_sless_alt)
  from Scrape_loop_limit [OF w1 r1 this, of cn resp']
  have "Scrape_loop lim (Some cn) buf resp 0 w
          = Some (Inl ErrRetryLimit, more_trace w (evs @ [Write cn buf, Read cn (length resp')]))"
    using e r by (simp add: more_trace_simps)
  moreover have "nat (max 1 (sint lim + 1)) = Suc m" using False m by simp
  ultimately show ?thesis
    using c by (intro exI[of _ "evs @ [Write cn buf, Read cn (length resp')]"]) (simp add: evs_simps)
qed

lemma Scrape_loop_diverges_aux:
  "Scrape_loop lim c buf resp r w = Some y \<Longrightarrow>
   lim = max_int \<Longrightarrow> c \<noteq> None \<Longrightarrow> \<forall>k b. write_result w k b = (int (length b), None) \<Longrightarrow>
   \<forall>k. is_timeout (snd (read_result w k)) \<Longrightarrow> False"
proof (induction rule: Scrape_loop.raw_induct [rotated 1, consumes 1])
  case (1 loop lim c buf resp r w y)
  let ?rd = "read_result w (reads (trace w))"
  let ?m = "min (length (fst ?rd)) (length resp)"
  let ?resp = "take ?m (fst ?rd) @ drop ?m resp"
  let ?w2 = "w\<lparr>trace := trace w @ [Write (the c) buf, Read (the c) (length resp)]\<rparr>"
  from 1(2-6) have "loop lim c buf ?resp (r + 1) ?w2 = Some y"
    by (simp add: Let_def conn_Write_def conn_Read_def not_sless_max_int evs_simps)
  from 1(1) [OF this 1(3,4)] 1(5,6) show ?case by simp
qed

lemma Scrape_loop_diverges:
  assumes "\<forall>k b. write_result w k b = (int (length b), None)"
    and "\<forall>k. is_timeout (snd (read_result w k))"
  shows "Scrape_loop max_int (Some cn) buf resp r w = None"
proof (cases "Scrape_loop max_int (Some cn) buf resp r w")
  case None
  then show ?thesis .
next
  case (Some y)
  from Scrape_loop_diverges_aux [OF Some refl _ assms] show ?thesis by simp
qed

text \<open>What every returning run of the loop guarantees.\<close>

lemma Scrape_loop_post_step:
  assumes "Scrape_loop_post c buf resp1 (more_trace w [Write cn buf, Read cn k]) y"
    and "c = Some cn" and "length resp1 = length resp"
  shows "Scrape_loop_post c buf resp w y"
proof -
  let ?w1 = "more_trace w [Write cn buf, Read cn k]"
  from assms(1) obtain evs where e: "snd y = more_trace ?w1 evs" "dials evs = 0"
    and r: "\<forall>n resp'. fst y = Inr (n, resp') \<longrightarrow>
           0 < reads evs \<and>
           net_Error (snd (read_result ?w1 (reads (trace ?w1 @ evs) - 1))) = None \<and>
           (\<exists>b. length b = length resp1 \<and>
              n = int (min (length (fst (read_result ?w1 (reads (trace ?w1 @ evs) - 1)))) (length resp1)) \<and>
              resp' = take (nat n) (fst (read_result ?w1 (reads (trace ?w1 @ evs) - 1))) @ drop (nat n) b)"
    unfolding Scrape_loop_post_def by blast
  let ?evs = "[Write cn buf, Read cn k] @ evs"
  have t: "trace ?w1 @ evs = trace w @ ?evs" by (simp add: more_trace_simps)
  have "snd y = more_trace w ?evs" using e by (simp add: more_trace_simps)
  moreover have "dials ?evs = 0" using e by (simp add: evs_simps)
  moreover have "c \<noteq> None \<longrightarrow> (\<exists>evs'. ?evs = Write (the c) buf # evs')" using assms(2) by simp
  moreover have "\<forall>n resp'. fst y = Inr (n, resp') \<longrightarrow>
           0 < reads ?evs \<and>
           net_Error (snd (read_result w (reads (trace w @ ?evs) - 1))) = None \<and>
           (\<exists>b. length b = length resp \<and>
              n = int (min (length (fst (read_result w (reads (trace w @ ?evs) - 1)))) (length resp)) \<and>
              resp' = take (nat n) (fst (read_result w (reads (trace w @ ?evs) - 1))) @ drop (nat n) b)"
    using r unfolding t assms(3) by (simp add: more_trace_simps evs_simps)
  ultimately show ?thesis unfolding Scrape_loop_post_def by blast
qed

lemma Scrape_loop_sound:
  "Scrape_loop lim c buf resp r w = Some y \<Longrightarrow> Scrape_loop_post c buf resp w y"
proof (induction rule: Scrape_loop.raw_induct [rotated 1, consumes 1])
  case (1 loop lim c buf resp r w y)
  show ?case
  proof (cases c)
    case None
    with 1(2) have "y = (Inl NilConn, w)" by (simp add: Let_def)
    then show ?thesis
      unfolding Scrape_loop_post_def using None
      by (intro exI[of _ "[]"]) (simp add: more_trace_simps evs_simps)
  next
    case (Some cn)
    let ?wr = "write_result w (writes (trace w)) buf"
    let ?rd = "read_result w (reads (trace w))"
    let ?w1 = "more_trace w [Write cn buf]"
    let ?w2 = "more_trace w [Write cn buf, Read cn (length resp)]"
    let ?m = "min (length (fst ?rd)) (length resp)"
    let ?resp = "take ?m (fst ?rd) @ drop ?m resp"
    consider (werr) "snd ?wr \<noteq> None" | (short) "snd ?wr = None" "fst ?wr \<noteq> int (length buf)"
      | (tlim) "snd ?wr = None" "fst ?wr = int (length buf)" "is_timeout (snd ?rd)" "lim <s r + 1"
      | (tcont) "snd ?wr = None" "fst ?wr = int (length buf)" "is_timeout (snd ?rd)" "\<not> lim <s r + 1"
      | (rerr) "snd ?wr = None" "fst ?wr = int (length buf)" "\<not> is_timeout (snd ?rd)" "net_Error (snd ?rd) \<noteq> None"
      | (ok) "snd ?wr = None" "fst ?wr = int (length buf)" "\<not> is_timeout (snd ?rd)" "net_Error (snd ?rd) = None"
      by blast
    then show ?thesis
    proof cases
      case werr
      with 1(2) Some have "snd y = ?w1" "\<exists>e. fst y = Inl e"
        by (auto simp: Let_def conn_Write_def more_trace_def)
      then show ?thesis unfolding Scrape_loop_post_def using Some
        by (intro exI[of _ "[Write cn buf]"]) (auto simp: evs_simps)
    next
      case short
      with 1(2) Some have "snd y = ?w1" "\<exists>e. fst y = Inl e"
        by (auto simp: Let_def conn_Write_def more_trace_def)
      then show ?thesis unfolding Scrape_loop_post_def using Some
        by (intro exI[of _ "[Write cn buf]"]) (auto simp: evs_simps)
    next
      case tlim
      with 1(2) Some have "snd y = ?w2" "\<exists>e. fst y = Inl e"
        by (auto simp: Let_def conn_Write_def conn_Read_def more_trace_def evs_simps)
      then show ?thesis unfolding Scrape_loop_post_def using Some
        by (intro exI[of _ "[Write cn buf, Read cn (length resp)]"]) (auto simp: evs_simps)
    next
      case rerr
      with 1(2) Some have "snd y = ?w2" "\<exists>e. fst y = Inl e"
        by (auto simp: Let_def conn_Write_def conn_Read_def more_trace_def evs_simps)
      then show ?thesis unfolding Scrape_loop_post_def using Some
        by (intro exI[of _ "[Write cn buf, Read cn (length resp)]"]) (auto simp: evs_simps)
    next
      case ok
      with 1(2) Some have "snd y = ?w2" "fst y = Inr (int ?m, ?resp)"
        by (auto simp: Let_def conn_Write_def conn_Read_def more_trace_def evs_simps)
      then show ?thesis unfolding Scrape_loop_post_def using Some ok
        by (intro exI[of _ "[Write cn buf, Read cn (length resp)]"]) (auto simp: evs_simps)
    next
      case tcont
      with 1(2) Some have "loop lim c buf ?resp (r + 1) ?w2 = Some y"
        by (auto simp: Let_def conn_Write_def conn_Read_def more_trace_def evs_simps)
      from 1(1) [OF this] have "Scrape_loop_post c buf ?resp ?w2 y" .
      then show ?thesis using Some by (rule Scrape_loop_post_step) simp
    qed
  qed
qed

subsection \<open>The loop of connect\<close>

text \<open>
  The same facts for the loop of \<open>connect\<close>, whose buffer may change from one attempt
  to the next, since the responses are read into it.
\<close>

lemma connect_loop_timeout_step:
  assumes "write_result w (writes (trace w)) buf = (int (length buf), None)"
    and "is_timeout (snd (read_result w (reads (trace w))))"
  shows "\<exists>buf'. length buf' = length buf \<and>
     connect_loop lim cn buf r w =
       (if lim <s r + 1
        then Some (Inl ErrRetryLimit, more_trace w [Write cn buf, Read cn (length buf)])
        else connect_loop lim cn buf' (r + 1)
               (more_trace w [Write cn buf, Read cn (length buf)]))"
proof -
  let ?d = "fst (read_result w (reads (trace w)))"
  let ?m = "min (length ?d) (length buf)"
  let ?buf = "take ?m ?d @ drop ?m buf"
  have "length ?buf = length buf" by simp
  moreover have "connect_loop lim cn buf r w =
       (if lim <s r + 1
        then Some (Inl ErrRetryLimit, more_trace w [Write cn buf, Read cn (length buf)])
        else connect_loop lim cn ?buf (r + 1)
               (more_trace w [Write cn buf, Read cn (length buf)]))"
    using assms
    by (subst connect_loop.simps)
       (simp add: conn_Write_def conn_Read_def Let_def more_trace_def evs_simps)
  ultimately show ?thesis by blast
qed

lemma connect_loop_timeouts:
  assumes "\<forall>j<m. \<forall>b. write_result w (writes (trace w) + j) b = (int (length b), None)"
    and "\<forall>j<m. is_timeout (snd (read_result w (reads (trace w) + j)))"
    and "m = 0 \<or> sint r + int m \<le> sint lim"
  shows "\<exists>buf' evs. length buf' = length buf \<and> writes evs = m \<and> reads evs = m \<and>
     dials evs = 0 \<and>
     connect_loop lim cn buf r w = connect_loop lim cn buf' (r + of_nat m) (more_trace w evs)"
  using assms
proof (induction m arbitrary: r w buf)
  case 0
  have "connect_loop lim cn buf r w = connect_loop lim cn buf (r + of_nat 0) (more_trace w [])"
    by (simp add: more_trace_simps)
  then show ?case by (metis evs_simps(4,5,6))
next
  case (Suc m)
  let ?w1 = "more_trace w [Write cn buf, Read cn (length buf)]"
  have w0: "write_result w (writes (trace w)) buf = (int (length buf), None)"
    using Suc.prems(1) by (metis add.right_neutral zero_less_Suc)
  have r0: "is_timeout (snd (read_result w (reads (trace w))))"
    using Suc.prems(2) by (metis add.right_neutral zero_less_Suc)
  have lt: "sint r < sint lim" using Suc.prems(3) by simp
  have "sint lim \<le> 2^63 - 1" using sint_lt[of lim] by simp
  with lt have s1: "sint (r + 1) = sint r + 1" by (simp add: sint_Suc)
  have nolim: "\<not> lim <s r + 1" using lt s1 by (simp add: word_sless_alt)
  from connect_loop_timeout_step[OF w0 r0, of lim cn r] nolim
  obtain buf1 where l1: "length buf1 = length buf"
    and e1: "connect_loop lim cn buf r w = connect_loop lim cn buf1 (r + 1) ?w1"
    by auto
  have "\<And>j b. j < m \<Longrightarrow> write_result w (writes (trace w) + Suc j) b = (int (length b), None)"
    using Suc.prems(1) by (meson Suc_less_eq)
  then have a1: "\<forall>j<m. \<forall>b. write_result ?w1 (writes (trace ?w1) + j) b = (int (length b), None)"
    by (simp add: more_trace_simps evs_simps)
  have "\<And>j. j < m \<Longrightarrow> is_timeout (snd (read_result w (reads (trace w) + Suc j)))"
    using Suc.prems(2) by (meson Suc_less_eq)
  then have a2: "\<forall>j<m. is_timeout (snd (read_result ?w1 (reads (trace ?w1) + j)))"
    by (simp add: more_trace_simps evs_simps)
  have a3: "m = 0 \<or> sint (r + 1) + int m \<le> sint lim" using Suc.prems(3) s1 by simp
  from Suc.IH[OF a1 a2 a3, of buf1]
  obtain buf' evs where l2: "length buf' = length buf1"
    and c: "writes evs = m" "reads evs = m" "dials evs = 0"
    and e2: "connect_loop lim cn buf1 (r + 1) ?w1 =
       connect_loop lim cn buf' (r + 1 + of_nat m) (more_trace ?w1 evs)"
    by blast
  let ?evs = "[Write cn buf, Read cn (length buf)] @ evs"
  have "connect_loop lim cn buf r w =
       connect_loop lim cn buf' (r + of_nat (Suc m)) (more_trace w ?evs)"
  proof -
    have "r + 1 + of_nat m = r + of_nat (Suc m)" by simp
    then show ?thesis using e1 e2 by (simp only: more_trace_simps)
  qed
  moreover have "writes ?evs = Suc m" "reads ?evs = Suc m" "dials ?evs = 0"
    using c by (simp_all add: evs_simps)
  moreover have "length buf' = length buf" using l1 l2 by simp
  ultimately show ?case by blast
qed

lemma connect_loop_write_error:
  assumes "snd (write_result w (writes (trace w)) buf) = Some e"
  shows "connect_loop lim cn buf r w = Some (Inl e, more_trace w [Write cn buf])"
  using assms
  by (subst connect_loop.simps) (simp add: conn_Write_def Let_def more_trace_def)

lemma connect_loop_short_write:
  assumes "write_result w (writes (trace w)) buf = (n, None)" and "n \<noteq> int (length buf)"
  shows "connect_loop lim cn buf r w = Some (Inl ErrRequest, more_trace w [Write cn buf])"
  using assms
  by (subst connect_loop.simps) (simp add: conn_Write_def Let_def more_trace_def)

lemma connect_loop_read_error:
  assumes "write_result w (writes (trace w)) buf = (int (length buf), None)"
    and "snd (read_result w (reads (trace w))) = Some (NetError False msg)"
  shows "connect_loop lim cn buf r w
           = Some (Inl (NetError False msg), more_trace w [Write cn buf, Read cn (length buf)])"
  using assms
  by (subst connect_loop.simps)
     (simp add: conn_Write_def conn_Read_def Let_def more_trace_def evs_simps is_timeout_def
        net_Error_def)

lemma connect_loop_read_ok:
  assumes "write_result w (writes (trace w)) buf = (int (length buf), None)"
    and "read_result w (reads (trace w)) = (d, None)"
  shows "connect_loop lim cn buf r w
           = Some (Inr (int (min (length d) (length buf)),
                        take (min (length d) (length buf)) d
                          @ drop (min (length d) (length buf)) buf),
                   more_trace w [Write cn buf, Read cn (length buf)])"
  using assms
  by (subst connect_loop.simps)
     (simp add: conn_Write_def conn_Read_def Let_def more_trace_def evs_simps is_timeout_def
        net_Error_def)

lemma connect_loop_limit:
  assumes "write_result w (writes (trace w)) buf = (int (length buf), None)"
    and "is_timeout (snd (read_result w (reads (trace w))))"
    and "lim <s r + 1"
  shows "connect_loop lim cn buf r w
           = Some (Inl ErrRetryLimit, more_trace w [Write cn buf, Read cn (length buf)])"
  using connect_loop_timeout_step [OF assms(1,2), of lim cn r] assms(3) by auto

lemma connect_loop_exhaust:
  assumes wr: "\<forall>j b. write_result w (writes (trace w) + j) b = (int (length b), None)"
    and rd: "\<forall>j. is_timeout (snd (read_result w (reads (trace w) + j)))"
    and lim: "sint lim < 2 ^ 63 - 1"
  shows "\<exists>evs. connect_loop lim cn buf 0 w = Some (Inl ErrRetryLimit, more_trace w evs)
           \<and> writes evs = nat (max 1 (sint lim + 1)) \<and> reads evs = nat (max 1 (sint lim + 1))
           \<and> dials evs = 0"
proof (cases "sint lim < 0")
  case True
  have w0: "write_result w (writes (trace w)) buf = (int (length buf), None)"
    using wr by (metis add.right_neutral)
  have r0: "is_timeout (snd (read_result w (reads (trace w))))"
    using rd by (metis add.right_neutral)
  have "lim <s 0 + 1" using True by (simp add: word_sless_alt)
  from connect_loop_limit [OF w0 r0 this, of cn]
  have "connect_loop lim cn buf 0 w
          = Some (Inl ErrRetryLimit, more_trace w [Write cn buf, Read cn (length buf)])" .
  moreover have "nat (max 1 (sint lim + 1)) = 1" using True by simp
  ultimately show ?thesis
    by (intro exI[of _ "[Write cn buf, Read cn (length buf)]"]) (simp add: evs_simps)
next
  case False
  define m where "m = nat (sint lim)"
  have m: "int m = sint lim" using False by (simp add: m_def)
  have a1: "\<forall>j<m. \<forall>b. write_result w (writes (trace w) + j) b = (int (length b), None)"
    using wr by simp
  have a2: "\<forall>j<m. is_timeout (snd (read_result w (reads (trace w) + j)))"
    using rd by simp
  have a3: "m = 0 \<or> sint (0 :: 64 word) + int m \<le> sint lim" using m by simp
  from connect_loop_timeouts [OF a1 a2 a3, of buf cn]
  obtain buf' evs where l: "length buf' = length buf"
    and c: "writes evs = m" "reads evs = m" "dials evs = 0"
    and e: "connect_loop lim cn buf 0 w
              = connect_loop lim cn buf' (0 + of_nat m) (more_trace w evs)"
    by blast
  have r: "(0 :: 64 word) + of_nat m = lim" using False by (simp add: m_def)
  let ?w = "more_trace w evs"
  have w1: "write_result ?w (writes (trace ?w)) buf' = (int (length buf'), None)"
    using wr c by (simp add: more_trace_simps evs_simps)
  have r1: "is_timeout (snd (read_result ?w (reads (trace ?w))))"
    using rd c by (simp add: more_trace_simps evs_simps)
  have "lim <s lim + 1" using sint_Suc [OF lim] by (simp add: word_sless_alt)
  from connect_loop_limit [OF w1 r1 this, of cn]
  have "connect_loop lim cn buf 0 w
          = Some (Inl ErrRetryLimit, more_trace w (evs @ [Write cn buf', Read cn (length buf')]))"
    using e r by (simp add: more_trace_simps)
  moreover have "nat (max 1 (sint lim + 1)) = Suc m" using False m by simp
  ultimately show ?thesis
    using c by (intro exI[of _ "evs @ [Write cn buf', Read cn (length buf')]"]) (simp add: evs_simps)
qed

lemma connect_loop_diverges_aux:
  "connect_loop lim cn buf r w = Some y \<Longrightarrow>
   lim = max_int \<Longrightarrow> \<forall>k b. write_result w k b = (int (length b), None) \<Longrightarrow>
   \<forall>k. is_timeout (snd (read_result w k)) \<Longrightarrow> False"
proof (induction rule: connect_loop.raw_induct [rotated 1, consumes 1])
  case (1 loop lim cn buf r w y)
  let ?rd = "read_result w (reads (trace w))"
  let ?m = "min (length (fst ?rd)) (length buf)"
  let ?buf = "take ?m (fst ?rd) @ drop ?m buf"
  let ?w2 = "w\<lparr>trace := trace w @ [Write cn buf, Read cn (length buf)]\<rparr>"
  from 1(2-5) have "loop lim cn ?buf (r + 1) ?w2 = Some y"
    by (simp add: Let_def conn_Write_def conn_Read_def not_sless_max_int evs_simps)
  from 1(1) [OF this 1(3)] 1(4,5) show ?case by simp
qed

lemma connect_loop_diverges:
  assumes "\<forall>k b. write_result w k b = (int (length b), None)"
    and "\<forall>k. is_timeout (snd (read_result w k))"
  shows "connect_loop max_int cn buf r w = None"
proof (cases "connect_loop max_int cn buf r w")
  case None
  then show ?thesis .
next
  case (Some y)
  from connect_loop_diverges_aux [OF Some refl assms] show ?thesis ..
qed

lemma connect_loop_post_step:
  assumes "connect_loop_post cn buf1 (more_trace w [Write cn buf, Read cn k]) y"
    and "length buf1 = length buf"
  shows "connect_loop_post cn buf w y"
proof -
  let ?w1 = "more_trace w [Write cn buf, Read cn k]"
  from assms(1) obtain evs where e: "snd y = more_trace ?w1 (Write cn buf1 # evs)" "dials evs = 0"
    and r: "\<forall>n buf'. fst y = Inr (n, buf') \<longrightarrow>
           0 < reads evs \<and>
           net_Error (snd (read_result ?w1 (reads (trace ?w1 @ evs) - 1))) = None \<and>
           (\<exists>b. length b = length buf1 \<and>
              n = int (min (length (fst (read_result ?w1 (reads (trace ?w1 @ evs) - 1)))) (length buf1)) \<and>
              buf' = take (nat n) (fst (read_result ?w1 (reads (trace ?w1 @ evs) - 1))) @ drop (nat n) b)"
    unfolding connect_loop_post_def by blast
  let ?evs = "[Read cn k, Write cn buf1] @ evs"
  have t: "reads (trace ?w1 @ evs) = reads (trace w @ ?evs)" by (simp add: more_trace_simps evs_simps)
  have "snd y = more_trace w (Write cn buf # ?evs)" using e by (simp add: more_trace_simps)
  moreover have "dials ?evs = 0" using e by (simp add: evs_simps)
  moreover have "\<forall>n buf'. fst y = Inr (n, buf') \<longrightarrow>
           0 < reads ?evs \<and>
           net_Error (snd (read_result w (reads (trace w @ ?evs) - 1))) = None \<and>
           (\<exists>b. length b = length buf \<and>
              n = int (min (length (fst (read_result w (reads (trace w @ ?evs) - 1)))) (length buf)) \<and>
              buf' = take (nat n) (fst (read_result w (reads (trace w @ ?evs) - 1))) @ drop (nat n) b)"
    using r unfolding t assms(2) by (simp add: more_trace_simps evs_simps)
  ultimately show ?thesis unfolding connect_loop_post_def by blast
qed

lemma connect_loop_sound:
  "connect_loop lim cn buf r w = Some y \<Longrightarrow> connect_loop_post cn buf w y"
proof (induction rule: connect_loop.raw_induct [rotated 1, consumes 1])
  case (1 loop lim cn buf r w y)
  let ?wr = "write_result w (writes (trace w)) buf"
  let ?rd = "read_result w (reads (trace w))"
  let ?w1 = "more_trace w [Write cn buf]"
  let ?w2 = "more_trace w [Write cn buf, Read cn (length buf)]"
  let ?m = "min (length (fst ?rd)) (length buf)"
  let ?buf = "take ?m (fst ?rd) @ drop ?m buf"
  consider (werr) "snd ?wr \<noteq> None" | (short) "snd ?wr = None" "fst ?wr \<noteq> int (length buf)"
    | (tlim) "snd ?wr = None" "fst ?wr = int (length buf)" "is_timeout (snd ?rd)" "lim <s r + 1"
    | (tcont) "snd ?wr = None" "fst ?wr = int (length buf)" "is_timeout (snd ?rd)" "\<not> lim <s r + 1"
    | (rerr) "snd ?wr = None" "fst ?wr = int (length buf)" "\<not> is_timeout (snd ?rd)" "net_Error (snd ?rd) \<noteq> None"
    | (ok) "snd ?wr = None" "fst ?wr = int (length buf)" "\<not> is_timeout (snd ?rd)" "net_Error (snd ?rd) = None"
    by blast
  then show ?case
  proof cases
    case werr
    with 1(2) have "snd y = ?w1" "\<exists>e. fst y = Inl e"
      by (auto simp: Let_def conn_Write_def more_trace_def)
    then show ?thesis unfolding connect_loop_post_def
      by (intro exI[of _ "[]"]) (auto simp: evs_simps)
  next
    case short
    with 1(2) have "snd y = ?w1" "\<exists>e. fst y = Inl e"
      by (auto simp: Let_def conn_Write_def more_trace_def)
    then show ?thesis unfolding connect_loop_post_def
      by (intro exI[of _ "[]"]) (auto simp: evs_simps)
  next
    case tlim
    with 1(2) have "snd y = ?w2" "\<exists>e. fst y = Inl e"
      by (auto simp: Let_def conn_Write_def conn_Read_def more_trace_def evs_simps)
    then show ?thesis unfolding connect_loop_post_def
      by (intro exI[of _ "[Read cn (length buf)]"]) (auto simp: evs_simps)
  next
    case rerr
    with 1(2) have "snd y = ?w2" "\<exists>e. fst y = Inl e"
      by (auto simp: Let_def conn_Write_def conn_Read_def more_trace_def evs_simps)
    then show ?thesis unfolding connect_loop_post_def
      by (intro exI[of _ "[Read cn (length buf)]"]) (auto simp: evs_simps)
  next
    case ok
    with 1(2) have "snd y = ?w2" "fst y = Inr (int ?m, ?buf)"
      by (auto simp: Let_def conn_Write_def conn_Read_def more_trace_def evs_simps)
    then show ?thesis unfolding connect_loop_post_def using ok
      by (intro exI[of _ "[Read cn (length buf)]"]) (auto simp: evs_simps)
  next
    case tcont
    with 1(2) have "loop lim cn ?buf (r + 1) ?w2 = Some y"
      by (auto simp: Let_def conn_Write_def conn_Read_def more_trace_def evs_simps)
    from 1(1) [OF this] have "connect_loop_post cn ?buf ?w2 y" .
    then show ?thesis by (rule connect_loop_post_step) simp
  qed
qed

subsection \<open>connect\<close>

text \<open>
  \<open>connect\<close> on a fresh session, \<open>connect\<close> on a stale session unfolded down to
  its loop, what every returning run on a stale session guarantees, and the run in which
  every read times out.
\<close>

lemma length_connect_request [simp]: "length (connect_request tid) = 16"
  by (simp add: connect_request_def)

lemma connect_request_tid: "Uint32 (drop 12 (connect_request tid)) = tid"
  by (simp add: connect_request_def Uint32_PutUint32)

lemma connect_fresh:
  "\<not> Minute < age g w \<Longrightarrow>
   connect g w = Some (Inr (conn g, connectionID g), g, advance w [] 0 1)"
  by (simp add: connect_def time_Since_advance)

lemma connect_stale:
  assumes "Minute < age g w"
  shows "connect g w =
     (let tid = fst (transactionID w); w2 = advance w [Dial (url g)] 1 1; k = dials (trace w)
      in case dial_result w k of
           Some e \<Rightarrow> Some (Inl e, g\<lparr>conn := None\<rparr>, w2)
         | None \<Rightarrow>
            (case connect_loop (retries g) k (connect_request tid) 0 w2 of
               None \<Rightarrow> None
             | Some (Inl e, w3) \<Rightarrow> Some (Inl e, g\<lparr>conn := Some k\<rparr>, w3)
             | Some (Inr (n, buf), w3) \<Rightarrow>
                 if n \<noteq> int (length buf) then Some (Inl ErrResponse, g\<lparr>conn := Some k\<rparr>, w3)
                 else if Uint32 buf \<noteq> actionConnect
                   then Some (Inl ErrInvalidAction, g\<lparr>conn := Some k\<rparr>, w3)
                 else Some (Inr (Some k, Uint64 (drop 8 buf)),
                            g\<lparr>conn := Some k, connectionID := Uint64 (drop 8 buf),
                              session := now w3 (clock_calls w3)\<rparr>,
                            advance w3 [] 0 1)))"
  using assms
  by (simp add: connect_def time_Since_advance DialTimeout_advance connect_request_def Let_def
      time_Now_advance transactionID_advance advance_simps case_prod_beta
      split: option.splits sum.splits)

lemma connect_stale_sound:
  assumes st: "Minute < age g w" and co: "connect g w = Some (res, g', w')"
  shows "\<exists>evs cc. w' = advance w (Dial (url g) # evs) 1 cc \<and> dials evs = 0 \<and>
    (dial_result w (dials (trace w)) = None \<longrightarrow>
       (\<exists>evs'. evs = Write (dials (trace w)) (connect_request (fst (transactionID w))) # evs')) \<and>
    url g' = url g \<and> retries g' = retries g \<and>
    (case res of
       Inl e \<Rightarrow> connectionID g' = connectionID g \<and> session g' = session g \<and> cc = 1
     | Inr v \<Rightarrow> cc = 2 \<and> v = (conn g', connectionID g') \<and> conn g' = Some (dials (trace w)) \<and>
         session g' = now w (Suc (clock_calls w)) \<and> 0 < reads evs \<and>
         net_Error (snd (read_result w (reads (trace w @ evs) - 1))) = None \<and>
         16 \<le> length (fst (read_result w (reads (trace w @ evs) - 1))) \<and>
         Uint32 (fst (read_result w (reads (trace w @ evs) - 1))) = actionConnect \<and>
         connectionID g' = Uint64 (drop 8 (fst (read_result w (reads (trace w @ evs) - 1)))))"
proof (cases "dial_result w (dials (trace w))")
  case (Some e)
  with co connect_stale [OF st] have "res = Inl e" "g' = g\<lparr>conn := None\<rparr>"
    "w' = advance w [Dial (url g)] 1 1"
    by (simp_all add: Let_def)
  then show ?thesis using Some by (intro exI[of _ "[]"] exI[of _ 1]) (simp add: evs_simps)
next
  case None
  let ?k = "dials (trace w)"
  let ?w2 = "advance w [Dial (url g)] 1 1"
  let ?req = "connect_request (fst (transactionID w))"
  from co connect_stale [OF st] None
  obtain y where lp: "connect_loop (retries g) ?k ?req 0 ?w2 = Some y"
    by (cases "connect_loop (retries g) ?k ?req 0 ?w2") (auto simp: Let_def)
  from connect_loop_sound [OF lp] obtain evs where
    e: "snd y = more_trace ?w2 (Write ?k ?req # evs)" "dials evs = 0"
    and r: "\<forall>n buf'. fst y = Inr (n, buf') \<longrightarrow>
           0 < reads evs \<and>
           net_Error (snd (read_result ?w2 (reads (trace ?w2 @ evs) - 1))) = None \<and>
           (\<exists>b. length b = length ?req \<and>
              n = int (min (length (fst (read_result ?w2 (reads (trace ?w2 @ evs) - 1)))) (length ?req)) \<and>
              buf' = take (nat n) (fst (read_result ?w2 (reads (trace ?w2 @ evs) - 1))) @ drop (nat n) b)"
    unfolding connect_loop_post_def by blast
  let ?evs = "Write ?k ?req # evs"
  have w3: "snd y = advance w (Dial (url g) # ?evs) 1 1"
    using e by (simp add: advance_simps)
  have rd: "reads (trace ?w2 @ evs) = reads (trace w @ ?evs)"
    by (simp add: advance_simps evs_simps)
  let ?d = "fst (read_result w (reads (trace w @ ?evs) - 1))"
  show ?thesis
  proof (cases "fst y")
    case (Inl e')
    with co connect_stale [OF st] None lp have "res = Inl e'" "g' = g\<lparr>conn := Some ?k\<rparr>" "w' = snd y"
      by (cases y; simp add: Let_def)+
    then show ?thesis using w3 e None
      by (intro exI[of _ ?evs] exI[of _ 1]) (simp add: evs_simps)
  next
    case (Inr p)
    obtain n buf' where p: "p = (n, buf')" by (cases p)
    from r Inr p obtain b where rr: "0 < reads evs"
      "net_Error (snd (read_result w (reads (trace w @ ?evs) - 1))) = None"
      "length b = 16" "n = int (min (length ?d) 16)"
      "buf' = take (nat n) ?d @ drop (nat n) b"
      unfolding rd by (auto simp: advance_simps)
    have lb: "length buf' = 16" using rr by auto
    have yy: "y = (Inr (n, buf'), snd y)" using Inr p by (cases y) simp
    consider (short) "n \<noteq> 16" | (act) "n = 16" "Uint32 buf' \<noteq> actionConnect"
      | (ok) "n = 16" "Uint32 buf' = actionConnect" by blast
    then show ?thesis
    proof cases
      case short
      with co connect_stale [OF st] None lp yy lb
      have "res = Inl ErrResponse" "g' = g\<lparr>conn := Some ?k\<rparr>" "w' = snd y"
        by (cases y; simp add: Let_def)+
      then show ?thesis using w3 e None
        by (intro exI[of _ ?evs] exI[of _ 1]) (simp add: evs_simps)
    next
      case act
      with co connect_stale [OF st] None lp yy lb
      have "res = Inl ErrInvalidAction" "g' = g\<lparr>conn := Some ?k\<rparr>" "w' = snd y"
        by (cases y; simp add: Let_def)+
      then show ?thesis using w3 e None
        by (intro exI[of _ ?evs] exI[of _ 1]) (simp add: evs_simps)
    next
      case ok
      with co connect_stale [OF st] None lp yy lb
      have res: "res = Inr (Some ?k, Uint64 (drop 8 buf'))"
        and g': "g' = g\<lparr>conn := Some ?k, connectionID := Uint64 (drop 8 buf'),
                      session := now (snd y) (clock_calls (snd y))\<rparr>"
        and w': "w' = advance (snd y) [] 0 1"
        by (cases y; simp add: Let_def)+
      have ld: "16 \<le> length ?d" using rr(4) ok(1) by simp
      have b': "buf' = take 16 ?d" using rr(5) rr(3) ok(1) by simp
      have u32: "Uint32 ?d = actionConnect" using ok(2) b' by (simp add: Uint32_take)
      have u64: "Uint64 (drop 8 buf') = Uint64 (drop 8 ?d)" using b' by (simp add: Uint64_drop_take)
      show ?thesis using res g' w' w3 e None rr(1,2) ld u32 u64
        by (intro exI[of _ ?evs] exI[of _ 2]) (simp add: evs_simps advance_simps)
    qed
  qed
qed

lemma connect_world:
  assumes "connect g w = Some (res, g', w')"
  shows "\<exists>evs rc cc. w' = advance w evs rc cc"
proof (cases "Minute < age g w")
  case True
  from connect_stale_sound [OF True assms] show ?thesis by blast
next
  case False
  from connect_fresh [OF False] assms show ?thesis by auto
qed

lemma connect_all_timeouts:
  assumes st: "Minute < age g w" and dl: "dial_result w (dials (trace w)) = None"
    and wr: "\<forall>j b. write_result w (writes (trace w) + j) b = (int (length b), None)"
    and rd: "\<forall>j. is_timeout (snd (read_result w (reads (trace w) + j)))"
    and lim: "sint (retries g) < 2 ^ 63 - 1"
  shows "\<exists>evs. connect g w
            = Some (Inl ErrRetryLimit, g\<lparr>conn := Some (dials (trace w))\<rparr>,
                    advance w (Dial (url g) # evs) 1 1) \<and>
          writes evs = nat (max 1 (sint (retries g) + 1)) \<and>
          reads evs = nat (max 1 (sint (retries g) + 1)) \<and> dials evs = 0"
proof -
  let ?w2 = "advance w [Dial (url g)] 1 1"
  let ?req = "connect_request (fst (transactionID w))"
  have a1: "\<forall>j b. write_result ?w2 (writes (trace ?w2) + j) b = (int (length b), None)"
    using wr by (simp add: advance_simps evs_simps)
  have a2: "\<forall>j. is_timeout (snd (read_result ?w2 (reads (trace ?w2) + j)))"
    using rd by (simp add: advance_simps evs_simps)
  from connect_loop_exhaust [OF a1 a2 lim, of "dials (trace w)" ?req]
  obtain evs where lp: "connect_loop (retries g) (dials (trace w)) ?req 0 ?w2
                         = Some (Inl ErrRetryLimit, more_trace ?w2 evs)"
    and c: "writes evs = nat (max 1 (sint (retries g) + 1))"
      "reads evs = nat (max 1 (sint (retries g) + 1))" "dials evs = 0"
    by blast
  have "connect g w = Some (Inl ErrRetryLimit, g\<lparr>conn := Some (dials (trace w))\<rparr>,
                    advance w (Dial (url g) # evs) 1 1)"
    unfolding connect_stale [OF st] using dl lp by (simp add: Let_def advance_simps)
  with c show ?thesis by blast
qed

lemma fresh_connect_tracker1:
  assumes "now w = (\<lambda>k. 100 * Minute + 30 * Second)" and "clock_calls w = 0"
  shows "connect tracker1 w
           = Some (Inr (Some 0, 0x0102030405060708), tracker1, w\<lparr>clock_calls := Suc 0\<rparr>)"
proof -
  have "\<not> Minute < age tracker1 w"
    using assms by (simp add: age_def time_Sub_def Minute_def Second_def tracker1_def)
  from connect_fresh [OF this] show ?thesis
    using assms by (simp add: tracker1_def advance_def)
qed

subsection \<open>Scrape\<close>

text \<open>
  \<open>Scrape\<close> unfolded down to its loop once \<open>connect\<close> has returned a session and
  the infohashes are decoded, the entries of the result list, and the runs that start
  with timed-out attempts.
\<close>

lemma length_scrape_request [simp]: "length (scrape_request cid tid n dst) = 16 + n * 20"
  by (simp add: scrape_request_def copy_at_def)

lemma scrape_request_tid: "Uint32 (drop 12 (scrape_request cid tid n dst)) = tid"
proof -
  let ?b = "PutUint32 (PutUint64 (replicate (16 + n * 20) 0) 0 cid) 8 2"
  have "drop 12 (scrape_request cid tid n dst) = drop 12 (take 16 (PutUint32 ?b 12 tid)) @ drop 0 (take (n * 20) dst @ drop (16 + length dst) (PutUint32 ?b 12 tid))"
    by (simp add: scrape_request_def copy_at_def)
  then have "Uint32 (drop 12 (scrape_request cid tid n dst)) = Uint32 (drop 12 (take 16 (PutUint32 ?b 12 tid)))"
    by (simp add: Uint32_def nth_append)
  also have "\<dots> = Uint32 (drop 12 (PutUint32 ?b 12 tid))" by (simp add: Uint32_drop_take)
  also have "\<dots> = tid" by (simp add: Uint32_PutUint32)
  finally show ?thesis .
qed

lemma length_decode_results [simp]: "length (decode_results ih resp off) = length ih"
  by (induction ih arbitrary: off) simp_all

lemma nth_decode_results:
  "i < length ih \<Longrightarrow>
   decode_results ih resp off ! i =
     \<lparr>Infohash = ih ! i,
      Seeders = Uint32 (drop (off + 12 * i) resp),
      Leechers = Uint32 (drop (off + 12 * i + 8) resp),
      Completed = Uint32 (drop (off + 12 * i + 4) resp)\<rparr>"
proof (induction ih arbitrary: off i)
  case Nil
  then show ?case by simp
next
  case (Cons h hs)
  show ?case
  proof (cases i)
    case 0
    then show ?thesis by simp
  next
    case (Suc j)
    with Cons.prems have "j < length hs" by simp
    from Cons.IH [OF this, of "off + 12"] Suc show ?thesis
      by (simp add: add.assoc add.commute add.left_commute)
  qed
qed

lemma decode_results_take:
  "off + 12 * length ih \<le> n \<Longrightarrow> decode_results ih (take n d) off = decode_results ih d off"
proof (induction ih arbitrary: off)
  case Nil
  then show ?case by simp
next
  case (Cons h hs)
  then have "off + 12 + 12 * length hs \<le> n" by simp
  from Cons.IH [OF this] Cons.prems show ?case
    by (simp add: Uint32_drop_take)
qed

lemma Scrape_unfold:
  assumes "length ih \<le> 74" and "connect g w = Some (Inr (c, cid), g1, w1)"
    and "hex_Decode (concat ih) = Inr dst"
  shows "Scrape ih g w =
     (case Scrape_loop (retries g1) c
             (scrape_request cid (fst (transactionID w1)) (length ih) dst)
             (replicate (8 + 12 * length ih) 0) 0 (advance w1 [] 1 0) of
        None \<Rightarrow> None
      | Some (Inl e, w3) \<Rightarrow> Some (Inl e, g1, w3)
      | Some (Inr (n, resp), w3) \<Rightarrow>
          if n < int (8 + 12 * length ih) then Some (Inl ErrResponse, g1, w3)
          else if Uint32 (drop 4 resp) \<noteq> fst (transactionID w1)
            then Some (Inl ErrInvalidTransactionID, g1, w3)
          else if Uint32 resp = actionError then Some (Inl ErrRemote, g1, w3)
          else if Uint32 resp \<noteq> actionScrap then Some (Inl ErrInvalidAction, g1, w3)
          else Some (Inr (decode_results ih resp 8), g1, w3))"
  using assms
  by (simp add: Scrape_def Let_def scrape_request_def transactionID_advance case_prod_beta
      split: option.splits sum.splits)

lemma Scrape_after_timeouts:
  assumes len: "length ih \<le> 74"
    and co: "connect g w = Some (Inr (Some cn, cid), g1, w1)"
    and hex: "hex_Decode (concat ih) = Inr dst"
    and wr: "\<forall>j<m. \<forall>b. write_result w1 (writes (trace w1) + j) b = (int (length b), None)"
    and tmo: "\<forall>j<m. is_timeout (snd (read_result w1 (reads (trace w1) + j)))"
    and lim: "m = 0 \<or> int m \<le> sint (retries g1)"
  shows "\<exists>resp evs buf. writes evs = m \<and> reads evs = m \<and>
    Scrape ih g w =
     (case Scrape_loop (retries g1) (Some cn) buf resp (of_nat m)
             (more_trace (advance w1 [] 1 0) evs) of
        None \<Rightarrow> None
      | Some (Inl e, w3) \<Rightarrow> Some (Inl e, g1, w3)
      | Some (Inr (n, resp), w3) \<Rightarrow>
          if n < int (8 + 12 * length ih) then Some (Inl ErrResponse, g1, w3)
          else if Uint32 (drop 4 resp) \<noteq> fst (transactionID w1)
            then Some (Inl ErrInvalidTransactionID, g1, w3)
          else if Uint32 resp = actionError then Some (Inl ErrRemote, g1, w3)
          else if Uint32 resp \<noteq> actionScrap then Some (Inl ErrInvalidAction, g1, w3)
          else Some (Inr (decode_results ih resp 8), g1, w3))"
proof -
  let ?buf = "scrape_request cid (fst (transactionID w1)) (length ih) dst"
  let ?resp0 = "replicate (8 + 12 * length ih) (0 :: byte)"
  let ?w2 = "advance w1 [] 1 0"
  have a1: "\<forall>j<m. write_result ?w2 (writes (trace ?w2) + j) ?buf = (int (length ?buf), None)"
    using wr by (simp add: advance_simps)
  have a2: "\<forall>j<m. is_timeout (snd (read_result ?w2 (reads (trace ?w2) + j)))"
    using tmo by (simp add: advance_simps)
  have a3: "m = 0 \<or> sint (0 :: 64 word) + int m \<le> sint (retries g1)" using lim by simp
  from Scrape_loop_timeouts [OF a1 a2 a3, of ?resp0 cn]
  obtain resp' evs where c: "writes evs = m" "reads evs = m"
    and e: "Scrape_loop (retries g1) (Some cn) ?buf ?resp0 0 ?w2
              = Scrape_loop (retries g1) (Some cn) ?buf resp' (0 + of_nat m) (more_trace ?w2 evs)"
    by auto
  show ?thesis
    unfolding Scrape_unfold [OF len co hex] e using c
    by (intro exI [of _ resp'] exI [of _ evs] exI [of _ ?buf]) simp
qed

lemma Scrape_all_timeouts:
  assumes len: "length ih \<le> 74" and hex: "hex_Decode (concat ih) = Inr dst"
    and cn: "Minute < age g w \<or> conn g \<noteq> None"
    and dl: "dial_result w (dials (trace w)) = None"
    and wr: "\<forall>j b. write_result w (writes (trace w) + j) b = (int (length b), None)"
    and rd: "\<forall>j. is_timeout (snd (read_result w (reads (trace w) + j)))"
    and lim: "sint (retries g) < 2 ^ 63 - 1"
  shows "\<exists>g' w'. Scrape ih g w = Some (Inl ErrRetryLimit, g', w') \<and>
          writes (trace w') = writes (trace w) + nat (max 1 (sint (retries g) + 1)) \<and>
          reads (trace w') = reads (trace w) + nat (max 1 (sint (retries g) + 1))"
proof (cases "Minute < age g w")
  case True
  from connect_all_timeouts [OF True dl wr rd lim]
  obtain evs where co: "connect g w
            = Some (Inl ErrRetryLimit, g\<lparr>conn := Some (dials (trace w))\<rparr>,
                    advance w (Dial (url g) # evs) 1 1)"
    and c: "writes evs = nat (max 1 (sint (retries g) + 1))"
      "reads evs = nat (max 1 (sint (retries g) + 1))"
    by blast
  have "Scrape ih g w = Some (Inl ErrRetryLimit, g\<lparr>conn := Some (dials (trace w))\<rparr>,
                    advance w (Dial (url g) # evs) 1 1)"
    using len co by (simp add: Scrape_def)
  then show ?thesis using c by (simp add: advance_simps evs_simps)
next
  case False
  with cn obtain k where k: "conn g = Some k" by auto
  have co: "connect g w = Some (Inr (Some k, connectionID g), g, advance w [] 0 1)"
    using connect_fresh [OF False] k by simp
  let ?w1 = "advance w [] 0 1"
  let ?w2 = "advance ?w1 [] 1 0"
  let ?buf = "scrape_request (connectionID g) (fst (transactionID ?w1)) (length ih) dst"
  let ?resp0 = "replicate (8 + 12 * length ih) (0 :: byte)"
  have a1: "\<forall>j. write_result ?w2 (writes (trace ?w2) + j) ?buf = (int (length ?buf), None)"
    using wr by (simp add: advance_simps)
  have a2: "\<forall>j. is_timeout (snd (read_result ?w2 (reads (trace ?w2) + j)))"
    using rd by (simp add: advance_simps)
  from Scrape_loop_exhaust [OF a1 a2 lim, of k ?resp0]
  obtain evs where lp: "Scrape_loop (retries g) (Some k) ?buf ?resp0 0 ?w2
                          = Some (Inl ErrRetryLimit, more_trace ?w2 evs)"
    and c: "writes evs = nat (max 1 (sint (retries g) + 1))"
      "reads evs = nat (max 1 (sint (retries g) + 1))"
    by blast
  have "Scrape ih g w = Some (Inl ErrRetryLimit, g, more_trace ?w2 evs)"
    unfolding Scrape_unfold [OF len co hex] lp by simp
  then show ?thesis using c by (simp add: advance_simps evs_simps)
qed

text \<open>
  A failure after \<open>m\<close> timed-out attempts, in the handshake and in the scrape
  exchange: the failing operation ends the call.
\<close>

lemma connect_after_timeouts:
  assumes st: "Minute < age g w" and dl: "dial_result w (dials (trace w)) = None"
    and wr: "\<forall>j<m. \<forall>b. write_result w (writes (trace w) + j) b = (int (length b), None)"
    and tmo: "\<forall>j<m. is_timeout (snd (read_result w (reads (trace w) + j)))"
    and lim: "m = 0 \<or> int m \<le> sint (retries g)"
  shows "\<exists>buf evs. length buf = 16 \<and> writes evs = m \<and> reads evs = m \<and>
    (\<forall>e w3. connect_loop (retries g) (dials (trace w)) buf (of_nat m)
               (more_trace (advance w [Dial (url g)] 1 1) evs) = Some (Inl e, w3)
       \<longrightarrow> connect g w = Some (Inl e, g\<lparr>conn := Some (dials (trace w))\<rparr>, w3))"
proof -
  let ?k = "dials (trace w)"
  let ?w2 = "advance w [Dial (url g)] 1 1"
  let ?req = "connect_request (fst (transactionID w))"
  have a1: "\<forall>j<m. \<forall>b. write_result ?w2 (writes (trace ?w2) + j) b = (int (length b), None)"
    using wr by (simp add: advance_simps evs_simps)
  have a2: "\<forall>j<m. is_timeout (snd (read_result ?w2 (reads (trace ?w2) + j)))"
    using tmo by (simp add: advance_simps evs_simps)
  have a3: "m = 0 \<or> sint (0 :: 64 word) + int m \<le> sint (retries g)" using lim by simp
  from connect_loop_timeouts [OF a1 a2 a3, of ?req ?k]
  obtain buf evs where l: "length buf = 16" and c: "writes evs = m" "reads evs = m"
    and e: "connect_loop (retries g) ?k ?req 0 ?w2
              = connect_loop (retries g) ?k buf (0 + of_nat m) (more_trace ?w2 evs)"
    by auto
  have "\<forall>e w3. connect_loop (retries g) ?k buf (of_nat m) (more_trace ?w2 evs) = Some (Inl e, w3)
       \<longrightarrow> connect g w = Some (Inl e, g\<lparr>conn := Some ?k\<rparr>, w3)"
    unfolding connect_stale [OF st] using dl e by (simp add: Let_def)
  with l c show ?thesis by blast
qed

lemma Scrape_handshake_after_timeouts:
  assumes len: "length ih \<le> 74"
    and st: "Minute < age g w" and dl: "dial_result w (dials (trace w)) = None"
    and wr: "\<forall>j<m. \<forall>b. write_result w (writes (trace w) + j) b = (int (length b), None)"
    and tmo: "\<forall>j<m. is_timeout (snd (read_result w (reads (trace w) + j)))"
    and lim: "m = 0 \<or> int m \<le> sint (retries g)"
  shows
   "((\<forall>b. snd (write_result w (writes (trace w) + m) b) = Some e)
      \<longrightarrow> (\<exists>g' w'. Scrape ih g w = Some (Inl e, g', w') \<and>
             writes (trace w') = writes (trace w) + m + 1 \<and>
             reads (trace w') = reads (trace w) + m)) \<and>
    ((\<forall>b. snd (write_result w (writes (trace w) + m) b) = None \<and>
          fst (write_result w (writes (trace w) + m) b) \<noteq> int (length b))
      \<longrightarrow> (\<exists>g' w'. Scrape ih g w = Some (Inl ErrRequest, g', w') \<and>
             writes (trace w') = writes (trace w) + m + 1 \<and>
             reads (trace w') = reads (trace w) + m)) \<and>
    ((\<forall>b. write_result w (writes (trace w) + m) b = (int (length b), None)) \<and>
     snd (read_result w (reads (trace w) + m)) = Some (NetError False msg)
      \<longrightarrow> (\<exists>g' w'. Scrape ih g w = Some (Inl (NetError False msg), g', w') \<and>
             writes (trace w') = writes (trace w) + m + 1 \<and>
             reads (trace w') = reads (trace w) + m + 1))"
proof -
  let ?k = "dials (trace w)"
  from connect_after_timeouts [OF st dl wr tmo lim]
  obtain buf evs where l: "length buf = 16" and c: "writes evs = m" "reads evs = m"
    and co: "\<And>e w3. connect_loop (retries g) ?k buf (of_nat m)
               (more_trace (advance w [Dial (url g)] 1 1) evs) = Some (Inl e, w3)
       \<Longrightarrow> connect g w = Some (Inl e, g\<lparr>conn := Some ?k\<rparr>, w3)"
    by blast
  let ?w3 = "more_trace (advance w [Dial (url g)] 1 1) evs"
  have wk: "writes (trace ?w3) = writes (trace w) + m" "reads (trace ?w3) = reads (trace w) + m"
    using c by (simp_all add: advance_simps evs_simps)
  have sc: "\<And>e w3. connect g w = Some (Inl e, g\<lparr>conn := Some ?k\<rparr>, w3)
      \<Longrightarrow> Scrape ih g w = Some (Inl e, g\<lparr>conn := Some ?k\<rparr>, w3)"
    using len by (simp add: Scrape_def)
  show ?thesis
  proof (intro conjI impI; (elim conjE)?)
    assume "\<forall>b. snd (write_result w (writes (trace w) + m) b) = Some e"
    then have "snd (write_result ?w3 (writes (trace ?w3)) buf) = Some e"
      by (simp add: c advance_simps evs_simps)
    from sc [OF co [OF connect_loop_write_error [OF this]]]
    show "\<exists>g' w'. Scrape ih g w = Some (Inl e, g', w') \<and>
             writes (trace w') = writes (trace w) + m + 1 \<and>
             reads (trace w') = reads (trace w) + m"
      using c by (simp add: advance_simps evs_simps)
  next
    assume "\<forall>b. snd (write_result w (writes (trace w) + m) b) = None \<and>
          fst (write_result w (writes (trace w) + m) b) \<noteq> int (length b)"
    then have "write_result ?w3 (writes (trace ?w3)) buf
                 = (fst (write_result w (writes (trace w) + m) buf), None)"
      "fst (write_result w (writes (trace w) + m) buf) \<noteq> int (length buf)"
      by (simp_all add: c advance_simps evs_simps prod_eq_iff)
    from sc [OF co [OF connect_loop_short_write [OF this]]]
    show "\<exists>g' w'. Scrape ih g w = Some (Inl ErrRequest, g', w') \<and>
             writes (trace w') = writes (trace w) + m + 1 \<and>
             reads (trace w') = reads (trace w) + m"
      using c by (simp add: advance_simps evs_simps)
  next
    assume "\<forall>b. write_result w (writes (trace w) + m) b = (int (length b), None)"
      and "snd (read_result w (reads (trace w) + m)) = Some (NetError False msg)"
    then have "write_result ?w3 (writes (trace ?w3)) buf = (int (length buf), None)"
      "snd (read_result ?w3 (reads (trace ?w3))) = Some (NetError False msg)"
      by (simp_all add: c advance_simps evs_simps)
    from sc [OF co [OF connect_loop_read_error [OF this]]]
    show "\<exists>g' w'. Scrape ih g w = Some (Inl (NetError False msg), g', w') \<and>
             writes (trace w') = writes (trace w) + m + 1 \<and>
             reads (trace w') = reads (trace w) + m + 1"
      using c by (simp add: advance_simps evs_simps)
  qed
qed


lemma Scrape_exchange_after_timeouts:
  assumes len: "length ih \<le> 74" and hex: "hex_Decode (concat ih) = Inr dst"
    and co: "connect g w = Some (Inr (Some cn, cid), g1, w1)"
    and wr: "\<forall>j<m. \<forall>b. write_result w1 (writes (trace w1) + j) b = (int (length b), None)"
    and tmo: "\<forall>j<m. is_timeout (snd (read_result w1 (reads (trace w1) + j)))"
    and lim: "m = 0 \<or> int m \<le> sint (retries g1)"
  shows
   "((\<forall>b. snd (write_result w1 (writes (trace w1) + m) b) = Some e)
      \<longrightarrow> (\<exists>w'. Scrape ih g w = Some (Inl e, g1, w') \<and>
             writes (trace w') = writes (trace w1) + m + 1 \<and>
             reads (trace w') = reads (trace w1) + m)) \<and>
    ((\<forall>b. snd (write_result w1 (writes (trace w1) + m) b) = None \<and>
          fst (write_result w1 (writes (trace w1) + m) b) \<noteq> int (length b))
      \<longrightarrow> (\<exists>w'. Scrape ih g w = Some (Inl ErrRequest, g1, w') \<and>
             writes (trace w') = writes (trace w1) + m + 1 \<and>
             reads (trace w') = reads (trace w1) + m)) \<and>
    ((\<forall>b. write_result w1 (writes (trace w1) + m) b = (int (length b), None)) \<and>
     snd (read_result w1 (reads (trace w1) + m)) = Some (NetError False msg)
      \<longrightarrow> (\<exists>w'. Scrape ih g w = Some (Inl (NetError False msg), g1, w') \<and>
             writes (trace w') = writes (trace w1) + m + 1 \<and>
             reads (trace w') = reads (trace w1) + m + 1))"
proof -
  from Scrape_after_timeouts [OF len co hex wr tmo lim]
  obtain resp evs buf where c: "writes evs = m" "reads evs = m"
    and s: "Scrape ih g w =
     (case Scrape_loop (retries g1) (Some cn) buf resp (of_nat m)
             (more_trace (advance w1 [] 1 0) evs) of
        None \<Rightarrow> None
      | Some (Inl e, w3) \<Rightarrow> Some (Inl e, g1, w3)
      | Some (Inr (n, resp), w3) \<Rightarrow>
          if n < int (8 + 12 * length ih) then Some (Inl ErrResponse, g1, w3)
          else if Uint32 (drop 4 resp) \<noteq> fst (transactionID w1)
            then Some (Inl ErrInvalidTransactionID, g1, w3)
          else if Uint32 resp = actionError then Some (Inl ErrRemote, g1, w3)
          else if Uint32 resp \<noteq> actionScrap then Some (Inl ErrInvalidAction, g1, w3)
          else Some (Inr (decode_results ih resp 8), g1, w3))"
    by blast
  let ?w3 = "more_trace (advance w1 [] 1 0) evs"
  show ?thesis
  proof (intro conjI impI; (elim conjE)?)
    assume we: "\<forall>b. snd (write_result w1 (writes (trace w1) + m) b) = Some e"
    have "snd (write_result ?w3 (writes (trace ?w3)) buf) = Some e"
      using we c by (simp add: advance_simps evs_simps)
    from Scrape_loop_write_error [OF this, of "retries g1" cn resp "of_nat m"]
    have "Scrape ih g w = Some (Inl e, g1, more_trace ?w3 [Write cn buf])"
      unfolding s by simp
    then show "\<exists>w'. Scrape ih g w = Some (Inl e, g1, w') \<and>
                 writes (trace w') = writes (trace w1) + m + 1 \<and>
                 reads (trace w') = reads (trace w1) + m"
      using c by (simp add: advance_simps evs_simps)
  next
    assume ws: "\<forall>b. snd (write_result w1 (writes (trace w1) + m) b) = None \<and>
             fst (write_result w1 (writes (trace w1) + m) b) \<noteq> int (length b)"
    let ?n = "fst (write_result w1 (writes (trace w1) + m) buf)"
    have "write_result ?w3 (writes (trace ?w3)) buf = (?n, None)" "?n \<noteq> int (length buf)"
      using ws c by (simp_all add: advance_simps evs_simps prod_eq_iff)
    from Scrape_loop_short_write [OF this, of "retries g1" cn resp "of_nat m"]
    have "Scrape ih g w = Some (Inl ErrRequest, g1, more_trace ?w3 [Write cn buf])"
      unfolding s by simp
    then show "\<exists>w'. Scrape ih g w = Some (Inl ErrRequest, g1, w') \<and>
                 writes (trace w') = writes (trace w1) + m + 1 \<and>
                 reads (trace w') = reads (trace w1) + m"
      using c by (simp add: advance_simps evs_simps)
  next
    assume wo: "\<forall>b. write_result w1 (writes (trace w1) + m) b = (int (length b), None)"
      and re: "snd (read_result w1 (reads (trace w1) + m)) = Some (NetError False msg)"
    have "write_result ?w3 (writes (trace ?w3)) buf = (int (length buf), None)"
      "snd (read_result ?w3 (reads (trace ?w3))) = Some (NetError False msg)"
      using wo re c by (simp_all add: advance_simps evs_simps)
    from Scrape_loop_read_error [OF this, of "retries g1" cn resp "of_nat m"]
    have "Scrape ih g w
            = Some (Inl (NetError False msg), g1,
                    more_trace ?w3 [Write cn buf, Read cn (length resp)])"
      unfolding s by simp
    then show "\<exists>w'. Scrape ih g w = Some (Inl (NetError False msg), g1, w') \<and>
                 writes (trace w') = writes (trace w1) + m + 1 \<and>
                 reads (trace w') = reads (trace w1) + m + 1"
      using c by (simp add: advance_simps evs_simps)
  qed
qed

text \<open>
  The handshake that succeeds after \<open>m\<close> timed-out attempts: the session is installed
  from the datagram read last.
\<close>

lemma connect_success_after_timeouts:
  assumes st: "Minute < age g w" and dl: "dial_result w (dials (trace w)) = None"
    and wr: "\<forall>j\<le>m. \<forall>b. write_result w (writes (trace w) + j) b = (int (length b), None)"
    and tmo: "\<forall>j<m. is_timeout (snd (read_result w (reads (trace w) + j)))"
    and lim: "m = 0 \<or> int m \<le> sint (retries g)"
    and rd: "read_result w (reads (trace w) + m) = (d, None)"
    and ld: "16 \<le> length d" and act: "Uint32 d = actionConnect"
  shows "\<exists>evs. connect g w
      = Some (Inr (Some (dials (trace w)), Uint64 (drop 8 d)),
              g\<lparr>conn := Some (dials (trace w)), connectionID := Uint64 (drop 8 d),
                session := now w (Suc (clock_calls w))\<rparr>,
              advance w (Dial (url g)
                         # Write (dials (trace w)) (connect_request (fst (transactionID w)))
                         # evs) 1 2) \<and>
     writes evs = m \<and> reads evs = Suc m \<and> dials evs = 0"
proof -
  let ?k = "dials (trace w)"
  let ?w2 = "advance w [Dial (url g)] 1 1"
  let ?req = "connect_request (fst (transactionID w))"
  have a1: "\<forall>j<m. \<forall>b. write_result ?w2 (writes (trace ?w2) + j) b = (int (length b), None)"
    using wr by (simp add: advance_simps evs_simps)
  have a2: "\<forall>j<m. is_timeout (snd (read_result ?w2 (reads (trace ?w2) + j)))"
    using tmo by (simp add: advance_simps evs_simps)
  have a3: "m = 0 \<or> sint (0 :: 64 word) + int m \<le> sint (retries g)" using lim by simp
  from connect_loop_timeouts [OF a1 a2 a3, of ?req ?k]
  obtain buf evs where l: "length buf = 16"
    and c: "writes evs = m" "reads evs = m" "dials evs = 0"
    and e: "connect_loop (retries g) ?k ?req 0 ?w2
              = connect_loop (retries g) ?k buf (0 + of_nat m) (more_trace ?w2 evs)"
    by auto
  let ?w3 = "more_trace ?w2 evs"
  have w3: "write_result ?w3 (writes (trace ?w3)) buf = (int (length buf), None)"
    using wr c by (simp add: advance_simps evs_simps)
  have r3: "read_result ?w3 (reads (trace ?w3)) = (d, None)"
    using rd c by (simp add: advance_simps evs_simps)
  let ?w4 = "more_trace ?w3 [Write ?k buf, Read ?k (length buf)]"
  have lp: "connect_loop (retries g) ?k ?req 0 ?w2 = Some (Inr (16, take 16 d), ?w4)"
    unfolding e using connect_loop_read_ok [OF w3 r3, of "retries g" ?k "0 + of_nat m"] l ld
    by (simp add: min_def)
  let ?g' = "g\<lparr>conn := Some ?k, connectionID := Uint64 (drop 8 d),
                session := now w (Suc (clock_calls w))\<rparr>"
  let ?evs = "evs @ [Write ?k buf, Read ?k 16]"
  have u: "Uint32 (take 16 d) = actionConnect" "Uint64 (drop 8 (take 16 d)) = Uint64 (drop 8 d)"
    using act by (simp_all add: Uint32_take Uint64_drop_take)
  have co: "connect g w = Some (Inr (Some ?k, Uint64 (drop 8 d)), ?g',
                                advance w (Dial (url g) # ?evs) 1 2)"
    unfolding connect_stale [OF st] using dl lp ld u l
    by (simp add: Let_def advance_simps more_trace_simps numeral_2_eq_2)
  from connect_stale_sound [OF st co] dl obtain evs1 cc evs2 where
    s1: "advance w (Dial (url g) # ?evs) 1 2 = advance w (Dial (url g) # evs1) 1 cc"
    and s2: "evs1 = Write ?k ?req # evs2"
    by auto
  from s1 have "trace (advance w (Dial (url g) # ?evs) 1 2)
                  = trace (advance w (Dial (url g) # evs1) 1 cc)"
    by simp
  then have eq: "?evs = Write ?k ?req # evs2" using s2 by (simp add: advance_simps)
  have "writes ?evs = Suc m" "reads ?evs = Suc m" "dials ?evs = 0"
    using c by (simp_all add: evs_simps)
  then have "writes evs2 = m" "reads evs2 = Suc m" "dials evs2 = 0"
    unfolding eq by (simp_all add: evs_simps)
  with co [unfolded eq] show ?thesis by blast
qed
section \<open>Results of a successful scrape\<close>

text \<open>
  Claim C1. Whenever \<open>Scrape\<close> returns a result list for the infohashes \<open>ih\<close>, there
  are at most 74 of them, the list has one entry per infohash, a datagram of at least
  \<open>8 + 12 * N\<close> bytes was read during the call, and for every \<open>i\<close> the entry \<open>i\<close>
  carries the caller's \<open>i\<close>-th infohash unchanged and the three big-endian 32-bit
  fields found at the offsets \<open>8 + 12 * i\<close>, \<open>8 + 12 * i + 4\<close> and \<open>8 + 12 * i + 8\<close>
  of the datagram read last (the scrape response) as \<open>Seeders\<close>, \<open>Completed\<close> and
  \<open>Leechers\<close>.
\<close>

theorem Scrape_results:
  assumes "Scrape ih g w = Some (Inr rs, g', w')"
  shows "length ih \<le> 74 \<and> length rs = length ih \<and>
     reads (trace w) < reads (trace w') \<and>
     8 + 12 * length ih \<le> length (fst (read_result w (reads (trace w') - 1))) \<and>
     (\<forall>i<length ih.
        Infohash (rs ! i) = ih ! i \<and>
        Seeders (rs ! i) = Uint32 (drop (8 + 12 * i) (fst (read_result w (reads (trace w') - 1)))) \<and>
        Completed (rs ! i) = Uint32 (drop (8 + 12 * i + 4) (fst (read_result w (reads (trace w') - 1)))) \<and>
        Leechers (rs ! i) = Uint32 (drop (8 + 12 * i + 8) (fst (read_result w (reads (trace w') - 1)))))"
proof -
  let ?N = "length ih"
  have len: "?N \<le> 74" using assms by (auto simp: Scrape_def split: if_splits)
  from assms len obtain c cid g1 w1 where co: "connect g w = Some (Inr (c, cid), g1, w1)"
    by (auto simp: Scrape_def split: option.splits sum.splits)
  from assms len co obtain dst where hex: "hex_Decode (concat ih) = Inr dst"
    by (auto simp: Scrape_def Let_def case_prod_beta split: sum.splits)
  let ?buf = "scrape_request cid (fst (transactionID w1)) ?N dst"
  let ?resp0 = "replicate (8 + 12 * ?N) (0 :: byte)"
  let ?w2 = "advance w1 [] 1 0"
  from assms Scrape_unfold [OF len co hex]
  obtain y where lp: "Scrape_loop (retries g1) c ?buf ?resp0 0 ?w2 = Some y"
    by (cases "Scrape_loop (retries g1) c ?buf ?resp0 0 ?w2") auto
  from assms Scrape_unfold [OF len co hex] lp
  obtain n resp where y: "y = (Inr (n, resp), w')" and n: "int (8 + 12 * ?N) \<le> n"
    and rs: "rs = decode_results ih resp 8"
    by (cases y; cases "fst y") (auto split: if_splits)
  from connect_world [OF co] obtain evs1 rc cc where w1: "w1 = advance w evs1 rc cc" by blast
  from Scrape_loop_sound [OF lp] y obtain evs b where
    e: "w' = more_trace ?w2 evs" "0 < reads evs"
    and lb: "length b = 8 + 12 * ?N"
    and nn: "n = int (min (length (fst (read_result ?w2 (reads (trace ?w2 @ evs) - 1)))) (8 + 12 * ?N))"
    and rr: "resp = take (nat n) (fst (read_result ?w2 (reads (trace ?w2 @ evs) - 1))) @ drop (nat n) b"
    unfolding Scrape_loop_post_def by auto
  let ?d = "fst (read_result w (reads (trace w') - 1))"
  have tr: "trace w' = trace w @ evs1 @ evs" using e w1 by (simp add: advance_simps)
  have d: "fst (read_result ?w2 (reads (trace ?w2 @ evs) - 1)) = ?d"
    using e w1 by (simp add: advance_simps)
  have n8: "n = int (8 + 12 * ?N)" using n nn by simp
  have ld: "8 + 12 * ?N \<le> length ?d" using n nn d by simp
  have nn8: "nat n = 8 + 12 * ?N" using n8 by (simp add: nat_add_distrib nat_mult_distrib)
  have resp: "resp = take (8 + 12 * ?N) ?d" using rr lb d unfolding nn8 by simp
  have more: "reads (trace w) < reads (trace w')" using tr e(2) by (simp add: evs_simps)
  have "\<forall>i<?N.
        Infohash (rs ! i) = ih ! i \<and>
        Seeders (rs ! i) = Uint32 (drop (8 + 12 * i) ?d) \<and>
        Completed (rs ! i) = Uint32 (drop (8 + 12 * i + 4) ?d) \<and>
        Leechers (rs ! i) = Uint32 (drop (8 + 12 * i + 8) ?d)"
  proof (intro allI impI)
    fix i assume i: "i < ?N"
    then have b: "8 + 12 * i + 12 \<le> 8 + 12 * ?N" by simp
    show "Infohash (rs ! i) = ih ! i \<and>
        Seeders (rs ! i) = Uint32 (drop (8 + 12 * i) ?d) \<and>
        Completed (rs ! i) = Uint32 (drop (8 + 12 * i + 4) ?d) \<and>
        Leechers (rs ! i) = Uint32 (drop (8 + 12 * i + 8) ?d)"
      using b by (simp add: rs nth_decode_results [OF i] resp Uint32_drop_take)
  qed
  then show ?thesis using len more ld by (simp add: rs)
qed

theorem Scrape_results_witness:
  "\<exists>g' w'. Scrape infohashes0 tracker0 world0 = Some (Inr results0, g', w') \<and>
     length infohashes0 \<le> 74 \<and> length results0 = length infohashes0 \<and>
     reads (trace world0) < reads (trace w') \<and>
     8 + 12 * length infohashes0
       \<le> length (fst (read_result world0 (reads (trace w') - 1))) \<and>
     (\<forall>i<length infohashes0.
        Infohash (results0 ! i) = infohashes0 ! i \<and>
        Seeders (results0 ! i)
          = Uint32 (drop (8 + 12 * i) (fst (read_result world0 (reads (trace w') - 1)))) \<and>
        Completed (results0 ! i)
          = Uint32 (drop (8 + 12 * i + 4) (fst (read_result world0 (reads (trace w') - 1)))) \<and>
        Leechers (results0 ! i)
          = Uint32 (drop (8 + 12 * i + 8) (fst (read_result world0 (reads (trace w') - 1)))))"
proof -
  have "map_option fst (Scrape infohashes0 tracker0 world0) = Some (Inr results0)"
    by code_simp
  then obtain g' w' where h: "Scrape infohashes0 tracker0 world0 = Some (Inr results0, g', w')"
    by (rule option_fst_resultE)
  from Scrape_results [OF h] h show ?thesis by blast
qed

section \<open>The session manager\<close>

text \<open>
  Claim C4, as amended. \<open>connect\<close> renews the session exactly when the age of the cached
  session is strictly greater than one minute. When the age is at most one minute it
  returns the cached connection and connection ID, leaves the struct as it is and
  performs no network operation (the world only records the reading of the clock). When
  the age exceeds one minute, every run that returns has first dialled the tracker's
  address and, if the dial succeeded, then written the connect request; a failing dial
  ends the call with its error; and when the dial succeeds, the writes are complete and,
  on the first attempt or after \<open>m\<close> timed-out attempts within the retry limit, a
  connect response of at least 16 bytes is read, \<open>connect\<close> returns the new connection
  with the connection ID of that response and installs both, together with the next
  reading of the clock as the session timestamp, after \<open>m + 1\<close> writes and reads. A
  struct without a session has the zero timestamp, and its age exceeds one minute as soon
  as the clock reads more than one minute after the zero time.
\<close>

theorem connect_renewal:
  "(\<not> Minute < age g w \<longrightarrow>
      connect g w
        = Some (Inr (conn g, connectionID g), g, w\<lparr>clock_calls := Suc (clock_calls w)\<rparr>)) \<and>
   (Minute < age g w \<longrightarrow>
      (\<forall>res g' w'. connect g w = Some (res, g', w') \<longrightarrow>
         (\<exists>evs. trace w' = trace w @ Dial (url g) # evs \<and>
            (dial_result w (dials (trace w)) = None \<longrightarrow>
               (\<exists>evs'. evs = Write (dials (trace w)) (connect_request (fst (transactionID w)))
                               # evs')))) \<and>
      (\<forall>e. dial_result w (dials (trace w)) = Some e \<longrightarrow>
         connect g w = Some (Inl e, g\<lparr>conn := None\<rparr>, advance w [Dial (url g)] 1 1)) \<and>
      (dial_result w (dials (trace w)) = None \<and>
       (\<forall>j\<le>m. \<forall>b. write_result w (writes (trace w) + j) b = (int (length b), None)) \<and>
       (\<forall>j<m. is_timeout (snd (read_result w (reads (trace w) + j)))) \<and>
       (m = 0 \<or> int m \<le> sint (retries g)) \<and>
       read_result w (reads (trace w) + m) = (d, None) \<and>
       16 \<le> length d \<and> Uint32 d = actionConnect
       \<longrightarrow> (\<exists>evs. connect g w
                = Some (Inr (Some (dials (trace w)), Uint64 (drop 8 d)),
                        g\<lparr>conn := Some (dials (trace w)), connectionID := Uint64 (drop 8 d),
                          session := now w (Suc (clock_calls w))\<rparr>,
                        advance w (Dial (url g)
                          # Write (dials (trace w)) (connect_request (fst (transactionID w)))
                          # evs) 1 2) \<and>
              writes evs = m \<and> reads evs = Suc m \<and> dials evs = 0))) \<and>
   (session g = 0 \<and> Minute < now w (clock_calls w) \<longrightarrow> Minute < age g w)"
proof (intro conjI impI allI; (elim conjE)?)
  assume "\<not> Minute < age g w"
  from connect_fresh [OF this]
  show "connect g w
        = Some (Inr (conn g, connectionID g), g, w\<lparr>clock_calls := Suc (clock_calls w)\<rparr>)"
    by (simp add: advance_def)
next
  fix res g' w'
  assume st: "Minute < age g w" and co: "connect g w = Some (res, g', w')"
  from connect_stale_sound [OF st co] obtain evs cc where
    "w' = advance w (Dial (url g) # evs) 1 cc"
    "dial_result w (dials (trace w)) = None \<longrightarrow>
       (\<exists>evs'. evs = Write (dials (trace w)) (connect_request (fst (transactionID w))) # evs')"
    by (elim exE conjE)
  then show "\<exists>evs. trace w' = trace w @ Dial (url g) # evs \<and>
            (dial_result w (dials (trace w)) = None \<longrightarrow>
               (\<exists>evs'. evs = Write (dials (trace w)) (connect_request (fst (transactionID w)))
                               # evs'))"
    by (intro exI[of _ evs]) (simp add: advance_simps)
next
  fix e
  assume st: "Minute < age g w" and "dial_result w (dials (trace w)) = Some e"
  then show "connect g w = Some (Inl e, g\<lparr>conn := None\<rparr>, advance w [Dial (url g)] 1 1)"
    unfolding connect_stale [OF st] by (simp add: Let_def)
next
  assume h: "Minute < age g w" "dial_result w (dials (trace w)) = None"
    "\<forall>j\<le>m. \<forall>b. write_result w (writes (trace w) + j) b = (int (length b), None)"
    "\<forall>j<m. is_timeout (snd (read_result w (reads (trace w) + j)))"
    "m = 0 \<or> int m \<le> sint (retries g)"
    "read_result w (reads (trace w) + m) = (d, None)"
    "16 \<le> length d" "Uint32 d = actionConnect"
  from connect_success_after_timeouts [OF h] show "\<exists>evs. connect g w
                = Some (Inr (Some (dials (trace w)), Uint64 (drop 8 d)),
                        g\<lparr>conn := Some (dials (trace w)), connectionID := Uint64 (drop 8 d),
                          session := now w (Suc (clock_calls w))\<rparr>,
                        advance w (Dial (url g)
                          # Write (dials (trace w)) (connect_request (fst (transactionID w)))
                          # evs) 1 2) \<and>
              writes evs = m \<and> reads evs = Suc m \<and> dials evs = 0" .
next
  assume "session g = 0" "Minute < now w (clock_calls w)"
  then show "Minute < age g w"
    by (simp add: age_def time_Sub_def Minute_def Second_def)
qed

theorem connect_renewal_witness:
  "\<not> Minute < age tracker1 world30 \<and>
   connect tracker1 world30
     = Some (Inr (Some 0, 0x0102030405060708), tracker1, world30\<lparr>clock_calls := 1\<rparr>) \<and>
   Minute < age tracker1 world_renew \<and>
   (\<exists>evs. connect tracker1 world_renew
      = Some (Inr (Some 0, 0x1112131415161718),
              tracker1\<lparr>conn := Some 0, connectionID := 0x1112131415161718,
                session := 102 * Minute + Second\<rparr>,
              world_renew\<lparr>trace := Dial ''tracker.example:6969''
                  # Write 0 (connect_request 0x12345678) # evs,
                rand_calls := 1, clock_calls := 2\<rparr>) \<and>
      writes evs = 1 \<and> reads evs = 2 \<and> dials evs = 0) \<and>
   connect tracker1 world_dial_fails
     = Some (Inl refused_error, tracker1\<lparr>conn := None\<rparr>,
             world_dial_fails\<lparr>trace := [Dial ''tracker.example:6969''],
               rand_calls := 1, clock_calls := 1\<rparr>) \<and>
   Minute < age tracker0 world0"
proof -
  have a: "\<not> Minute < age tracker1 world30"
    by (simp add: age_def time_Sub_def Minute_def Second_def tracker1_def world30_def world0_def)
  have b: "Minute < age tracker1 world_renew" "Minute < age tracker1 world_dial_fails"
    by (simp_all add: age_def time_Sub_def Minute_def Second_def tracker1_def world_renew_def
        world_dial_fails_def world0_def)
  have c: "session tracker0 = 0 \<and> Minute < now world0 (clock_calls world0)"
    by (simp add: Minute_def Second_def tracker0_def world0_def)
  have sel: "conn tracker1 = Some 0" "connectionID tracker1 = 0x0102030405060708"
    "clock_calls world30 = 0" "url tracker1 = ''tracker.example:6969''"
    by (simp_all add: tracker1_def world30_def world0_def)
  have t: "fst (transactionID world_renew) = 0x12345678" by code_simp
  have u: "Uint64 (drop 8 connect_response1) = 0x1112131415161718"
    "Uint32 connect_response1 = actionConnect" "16 \<le> length connect_response1"
    by code_simp+
  have wsel: "trace world_renew = []" "rand_calls world_renew = 0" "clock_calls world_renew = 0"
    "now world_renew (Suc 0) = 102 * Minute + Second"
    "trace world_dial_fails = []" "rand_calls world_dial_fails = 0"
    "clock_calls world_dial_fails = 0"
    by (simp_all add: world_renew_def world_dial_fails_def world0_def)
  have h: "dial_result world_renew (dials (trace world_renew)) = None"
    "\<forall>j\<le>1. \<forall>b. write_result world_renew (writes (trace world_renew) + j) b
                  = (int (length b), None)"
    "\<forall>j<1. is_timeout (snd (read_result world_renew (reads (trace world_renew) + j)))"
    "read_result world_renew (reads (trace world_renew) + 1) = (connect_response1, None)"
    "int 1 \<le> sint (retries tracker1)"
    unfolding wsel
    by (simp_all add: world_renew_def world0_def evs_simps is_timeout_def timeout_error_def
        tracker1_def)
  have hd: "dial_result world_dial_fails (dials (trace world_dial_fails)) = Some refused_error"
    by (simp add: world_dial_fails_def world_renew_def)
  from connect_renewal [of tracker1 world30] a
  have r1: "connect tracker1 world30
     = Some (Inr (Some 0, 0x0102030405060708), tracker1, world30\<lparr>clock_calls := 1\<rparr>)"
    by (simp add: sel)
  from connect_renewal [of tracker1 world_renew 1 connect_response1] b(1) h u
  have r2: "\<exists>evs. connect tracker1 world_renew
      = Some (Inr (Some 0, 0x1112131415161718),
              tracker1\<lparr>conn := Some 0, connectionID := 0x1112131415161718,
                session := 102 * Minute + Second\<rparr>,
              world_renew\<lparr>trace := Dial ''tracker.example:6969''
                  # Write 0 (connect_request 0x12345678) # evs,
                rand_calls := 1, clock_calls := 2\<rparr>) \<and>
      writes evs = 1 \<and> reads evs = 2 \<and> dials evs = 0"
    by (simp add: t sel wsel evs_simps advance_def numeral_2_eq_2)
  from connect_renewal [of tracker1 world_dial_fails] b(2) hd
  have r3: "connect tracker1 world_dial_fails
     = Some (Inl refused_error, tracker1\<lparr>conn := None\<rparr>,
             world_dial_fails\<lparr>trace := [Dial ''tracker.example:6969''],
               rand_calls := 1, clock_calls := 1\<rparr>)"
    by (simp add: sel wsel advance_def)
  from connect_renewal [of tracker0 world0] c have r4: "Minute < age tracker0 world0" by simp
  from a r1 b(1) r2 r3 r4 show ?thesis by blast
qed

text \<open>
  The claim as stated fails at the boundary: with a session exactly 60 seconds old,
  \<open>connect\<close> returns the cached values and the trace stays as it was.
\<close>

theorem connect_at_60_seconds:
  "age tracker1 world60 = 60 * Second \<and>
   connect tracker1 world60
     = Some (Inr (Some 0, 0x0102030405060708), tracker1, world60\<lparr>clock_calls := 1\<rparr>) \<and>
   trace (world60\<lparr>clock_calls := 1\<rparr>) = trace world60"
  by (simp add: connect_def age_def time_Since_def time_Now_def time_Sub_def Minute_def Second_def
      tracker1_def world60_def world0_def)

text \<open>
  What \<open>connect\<close> leaves as it is. It never changes the address or the retry limit.
  When the session is fresh the struct is unchanged. Whenever \<open>connect\<close> returns an
  error, the session was stale, \<open>connectionID\<close> and \<open>session\<close> have their previous
  values, and the struct is stale in every world whose clock does not read earlier than
  at this call, so the next call runs the handshake again. The two fields are assigned
  only when a renewal returns a connection, and then both are: \<open>connectionID\<close> is
  bytes 8 to 15 of the datagram read last and \<open>session\<close> is the next reading of the
  clock.
\<close>

lemma connect_session_frame:
  assumes "connect g w = Some (res, g', w')"
  shows "url g' = url g \<and> retries g' = retries g \<and>
    (\<not> Minute < age g w \<longrightarrow> g' = g \<and> res = Inr (conn g, connectionID g)) \<and>
    (\<forall>e. res = Inl e \<longrightarrow>
       Minute < age g w \<and> connectionID g' = connectionID g \<and> session g' = session g \<and>
       (\<forall>w'' :: world. now w (clock_calls w) \<le> now w'' (clock_calls w'')
          \<longrightarrow> Minute < age g' w'')) \<and>
    (Minute < age g w \<longrightarrow>
       (\<forall>v. res = Inr v \<longrightarrow>
          v = (conn g', connectionID g') \<and> reads (trace w) < reads (trace w') \<and>
          connectionID g' = Uint64 (drop 8 (fst (read_result w (reads (trace w') - 1)))) \<and>
          session g' = now w (Suc (clock_calls w))))"
proof (cases "Minute < age g w")
  case False
  from connect_fresh [OF False] assms have "g' = g" "res = Inr (conn g, connectionID g)"
    by simp_all
  then show ?thesis using False by simp
next
  case True
  from connect_stale_sound [OF True assms] obtain evs cc where
    w': "w' = advance w (Dial (url g) # evs) 1 cc"
    and ur: "url g' = url g" "retries g' = retries g"
    and cs: "case res of
       Inl e \<Rightarrow> connectionID g' = connectionID g \<and> session g' = session g \<and> cc = 1
     | Inr v \<Rightarrow> cc = 2 \<and> v = (conn g', connectionID g') \<and> conn g' = Some (dials (trace w)) \<and>
         session g' = now w (Suc (clock_calls w)) \<and> 0 < reads evs \<and>
         net_Error (snd (read_result w (reads (trace w @ evs) - 1))) = None \<and>
         16 \<le> length (fst (read_result w (reads (trace w @ evs) - 1))) \<and>
         Uint32 (fst (read_result w (reads (trace w @ evs) - 1))) = actionConnect \<and>
         connectionID g' = Uint64 (drop 8 (fst (read_result w (reads (trace w @ evs) - 1))))"
    by blast
  have rd: "reads (trace w') = reads (trace w @ evs)" using w' by (simp add: advance_simps evs_simps)
  show ?thesis
  proof (cases res)
    case (Inl e)
    with cs have un: "connectionID g' = connectionID g" "session g' = session g" by simp_all
    have "\<forall>w'' :: world. now w (clock_calls w) \<le> now w'' (clock_calls w'')
            \<longrightarrow> Minute < age g' w''"
    proof (intro allI impI)
      fix w'' :: world assume "now w (clock_calls w) \<le> now w'' (clock_calls w'')"
      from time_Sub_mono [OF this, of "session g"] True show "Minute < age g' w''"
        by (simp add: age_def un)
    qed
    then show ?thesis using Inl True ur un by simp
  next
    case (Inr v)
    with cs rd have "v = (conn g', connectionID g')" "reads (trace w) < reads (trace w')"
      "connectionID g' = Uint64 (drop 8 (fst (read_result w (reads (trace w') - 1))))"
      "session g' = now w (Suc (clock_calls w))"
      by (simp_all add: evs_simps)
    then show ?thesis using Inr True ur by simp
  qed
qed

text \<open>
  Claim C9 does not hold of the code. Every path on which \<open>connect\<close> returns an error
  keeps \<open>connectionID\<close> and \<open>session\<close>, as the claim says, but a transaction-ID
  mismatch is no such path: the source compares the transaction ID of the response with
  itself, so a response that echoes another transaction ID is accepted and both fields
  are overwritten. Here the struct holds the connection ID \<open>0x0102030405060708\<close> and a
  session stamped at 100 minutes, the clock reads 102 minutes, the request carries
  \<open>0x12345678\<close> and the response echoes \<open>0xDEADBEEF\<close>: \<open>connect\<close> returns no
  error and replaces the connection ID and the session timestamp by those of the
  mismatched response.
\<close>

theorem connect_mismatch_replaces_session:
  "connectionID tracker1 = 0x0102030405060708 \<and> session tracker1 = 100 * Minute \<and>
   Minute < age tracker1 world_renew_other_tid \<and>
   fst (transactionID world_renew_other_tid) = 0x12345678 \<and>
   Uint32 (drop 4 other_tid_response) = 0xDEADBEEF \<and>
   map_option (trace \<circ> snd \<circ> snd) (connect tracker1 world_renew_other_tid)
     = Some [Dial ''tracker.example:6969'',
             Write 0 [0, 0, 0x04, 0x17, 0x27, 0x10, 0x19, 0x80, 0, 0, 0, 0,
                      0x12, 0x34, 0x56, 0x78],
             Read 0 16] \<and>
   map_option fst (connect tracker1 world_renew_other_tid)
     = Some (Inr (Some 0, 0x2122232425262728)) \<and>
   map_option (connectionID \<circ> fst \<circ> snd) (connect tracker1 world_renew_other_tid)
     = Some 0x2122232425262728 \<and>
   map_option (session \<circ> fst \<circ> snd) (connect tracker1 world_renew_other_tid)
     = Some (102 * Minute + Second)"
  by code_simp
section \<open>Validation of the scrape response\<close>

text \<open>
  Claim C6. Let \<open>connect\<close> have returned a connection, let the infohashes decode, and
  let the exchange go as follows: \<open>m\<close> attempts within the retry limit time out, and
  the next read delivers without error a datagram \<open>d\<close> of at least \<open>8 + 12 * N\<close>
  bytes, every write being complete. Then \<open>Scrape\<close> returns after exactly \<open>m + 1\<close>
  writes and reads, the last two events being the write of the scrape request, which
  carries the transaction ID generated for this call in bytes 12 to 15, and the read of
  the response: nothing is retried after the response was read. The result is decided
  in this order: \<open>ErrInvalidTransactionID\<close> when bytes 4 to 7 of \<open>d\<close> differ from
  that transaction ID; otherwise \<open>ErrRemote\<close> when the action in bytes 0 to 3 is 3;
  otherwise \<open>ErrInvalidAction\<close> when the action is not 2; otherwise the decoded
  results.
\<close>

theorem Scrape_response_validation:
  assumes len: "length ih \<le> 74"
    and co: "connect g w = Some (Inr (Some cn, cid), g1, w1)"
    and hex: "hex_Decode (concat ih) = Inr dst"
    and wr: "\<forall>j\<le>m. \<forall>b. write_result w1 (writes (trace w1) + j) b = (int (length b), None)"
    and tmo: "\<forall>j<m. is_timeout (snd (read_result w1 (reads (trace w1) + j)))"
    and lim: "int m \<le> sint (retries g1)"
    and rd: "read_result w1 (reads (trace w1) + m) = (d, None)"
    and ld: "8 + 12 * length ih \<le> length d"
  shows "\<exists>w' evs. Scrape ih g w =
           Some (if Uint32 (drop 4 d) \<noteq> fst (transactionID w1) then Inl ErrInvalidTransactionID
                 else if Uint32 d = actionError then Inl ErrRemote
                 else if Uint32 d \<noteq> actionScrap then Inl ErrInvalidAction
                 else Inr (decode_results ih d 8),
                 g1, w') \<and>
           trace w' = trace w1 @ evs @
             [Write cn (scrape_request cid (fst (transactionID w1)) (length ih) dst),
              Read cn (8 + 12 * length ih)] \<and>
           Uint32 (drop 12 (scrape_request cid (fst (transactionID w1)) (length ih) dst))
             = fst (transactionID w1) \<and>
           writes (trace w') = writes (trace w1) + m + 1 \<and>
           reads (trace w') = reads (trace w1) + m + 1"
proof -
  let ?N = "length ih"
  let ?L = "8 + 12 * ?N"
  let ?buf = "scrape_request cid (fst (transactionID w1)) ?N dst"
  let ?resp0 = "replicate ?L (0 :: byte)"
  let ?w2 = "advance w1 [] 1 0"
  have a1: "\<forall>j<m. write_result ?w2 (writes (trace ?w2) + j) ?buf = (int (length ?buf), None)"
    using wr by (simp add: advance_simps)
  have a2: "\<forall>j<m. is_timeout (snd (read_result ?w2 (reads (trace ?w2) + j)))"
    using tmo by (simp add: advance_simps)
  have a3: "m = 0 \<or> sint (0 :: 64 word) + int m \<le> sint (retries g1)" using lim by simp
  from Scrape_loop_timeouts [OF a1 a2 a3, of ?resp0 cn]
  obtain resp' evs where l: "length resp' = ?L"
    and c: "writes evs = m" "reads evs = m" "dials evs = 0"
    and e: "Scrape_loop (retries g1) (Some cn) ?buf ?resp0 0 ?w2
              = Scrape_loop (retries g1) (Some cn) ?buf resp' (0 + of_nat m) (more_trace ?w2 evs)"
    by auto
  let ?w3 = "more_trace ?w2 evs"
  have b1: "write_result ?w3 (writes (trace ?w3)) ?buf = (int (length ?buf), None)"
    using wr c by (simp add: advance_simps evs_simps)
  have b2: "read_result ?w3 (reads (trace ?w3)) = (d, None)"
    using rd c by (simp add: advance_simps evs_simps)
  let ?w4 = "more_trace ?w3 [Write cn ?buf, Read cn (length resp')]"
  have mn: "min (length d) (length resp') = ?L" using ld l by simp
  from Scrape_loop_read_ok [OF b1 b2, of "retries g1" cn resp' "0 + of_nat m"]
  have lp: "Scrape_loop (retries g1) (Some cn) ?buf ?resp0 0 ?w2
              = Some (Inr (int ?L, take ?L d), ?w4)"
    unfolding e mn using l by simp
  have u4: "Uint32 (drop 4 (take ?L d)) = Uint32 (drop 4 d)" by (simp add: Uint32_drop_take)
  have u0: "Uint32 (take ?L d) = Uint32 d" by (simp add: Uint32_take)
  have dr: "decode_results ih (take ?L d) 8 = decode_results ih d 8"
    by (simp add: decode_results_take)
  have "Scrape ih g w =
           Some (if Uint32 (drop 4 d) \<noteq> fst (transactionID w1) then Inl ErrInvalidTransactionID
                 else if Uint32 d = actionError then Inl ErrRemote
                 else if Uint32 d \<noteq> actionScrap then Inl ErrInvalidAction
                 else Inr (decode_results ih d 8),
                 g1, ?w4)"
    unfolding Scrape_unfold [OF len co hex] lp by (simp add: u4 u0 dr)
  moreover have "writes (trace ?w4) = writes (trace w1) + m + 1"
    "reads (trace ?w4) = reads (trace w1) + m + 1"
    using c by (simp_all add: advance_simps evs_simps)
  moreover have "trace ?w4 = trace w1 @ evs @ [Write cn ?buf, Read cn ?L]"
    using l by (simp add: advance_simps)
  moreover note scrape_request_tid [of cid "fst (transactionID w1)" ?N dst]
  ultimately show ?thesis by blast
qed

theorem Scrape_response_validation_witness:
  "\<exists>w'. Scrape infohashes0 tracker1 world_retry = Some (Inr results0, tracker1, w') \<and>
     writes (trace w') = 2 \<and> reads (trace w') = 2"
proof -
  let ?w1 = "world_retry\<lparr>clock_calls := Suc 0\<rparr>"
  have co: "connect tracker1 world_retry
              = Some (Inr (Some 0, 0x0102030405060708), tracker1, ?w1)"
    by (rule fresh_connect_tracker1) (simp_all add: world_retry_def world30_def world0_def)
  have len: "length infohashes0 \<le> 74" by (simp add: infohashes0_def)
  have "case hex_Decode (concat infohashes0) of Inl e \<Rightarrow> False | Inr d \<Rightarrow> True"
    by code_simp
  then obtain dst where hex: "hex_Decode (concat infohashes0) = Inr dst"
    by (cases "hex_Decode (concat infohashes0)") auto
  have wr: "\<forall>j\<le>1. \<forall>b. write_result ?w1 (writes (trace ?w1) + j) b = (int (length b), None)"
    by (simp add: world_retry_def world30_def world0_def)
  have tmo: "\<forall>j<1. is_timeout (snd (read_result ?w1 (reads (trace ?w1) + j)))"
    by (simp add: world_retry_def world30_def world0_def evs_simps is_timeout_def timeout_error_def)
  have lim: "int 1 \<le> sint (retries tracker1)" by (simp add: tracker1_def)
  have rd: "read_result ?w1 (reads (trace ?w1) + 1) = (scrape_response0, None)"
    by (simp add: world_retry_def world30_def world0_def evs_simps)
  have ld: "8 + 12 * length infohashes0 \<le> length scrape_response0"
    by (simp add: infohashes0_def scrape_response0_def)
  have t: "fst (transactionID ?w1) = 0x12345678" by code_simp
  have u4: "Uint32 (drop 4 scrape_response0) = 0x12345678" by code_simp
  have u0: "Uint32 scrape_response0 = 2" by code_simp
  have dr: "decode_results infohashes0 scrape_response0 8 = results0" by code_simp
  have tr: "trace world_retry = []" by (simp add: world_retry_def world30_def world0_def)
  from Scrape_response_validation [OF len co hex wr tmo lim rd ld]
  obtain w' where "Scrape infohashes0 tracker1 world_retry =
           Some (if Uint32 (drop 4 scrape_response0) \<noteq> fst (transactionID ?w1)
                   then Inl ErrInvalidTransactionID
                 else if Uint32 scrape_response0 = actionError then Inl ErrRemote
                 else if Uint32 scrape_response0 \<noteq> actionScrap then Inl ErrInvalidAction
                 else Inr (decode_results infohashes0 scrape_response0 8),
                 tracker1, w')"
    "writes (trace w') = writes (trace ?w1) + 1 + 1"
    "reads (trace w') = reads (trace ?w1) + 1 + 1"
    by blast
  then have "Scrape infohashes0 tracker1 world_retry = Some (Inr results0, tracker1, w')"
    "writes (trace w') = 2" "reads (trace w') = 2"
    by (simp_all add: t u4 u0 dr actionError_def actionScrap_def tr evs_simps)
  then show ?thesis by blast
qed

section \<open>Retries\<close>

text \<open>
  Claim C5, as amended. Let the infohashes be at most 74 and decode. First part, for a
  retry limit \<open>0 \<le> n\<close> below the largest \<open>int\<close>: if the dial (when one is needed)
  succeeds, every write is complete and every read times out, the call fails with
  \<open>ErrRetryLimit\<close> after exactly \<open>n + 1\<close> writes, whether the timeouts hit the
  handshake (stale session) or the scrape exchange (fresh session, on a connection that
  is not nil). Second and third part, for every retry limit, in the handshake of a stale
  session whose dial succeeded and in the scrape exchange after \<open>connect\<close> returned a
  connection: on the first attempt, or after any number \<open>m\<close> of timed-out attempts
  within the limit, a write that returns an error makes \<open>Scrape\<close> return that error, a
  write that returns no error but a wrong count makes it return \<open>ErrRequest\<close>, both
  after \<open>m + 1\<close> writes and \<open>m\<close> reads, and a read that fails with a \<open>net.Error\<close>
  that is no timeout (every read error of a UDP connection is a \<open>net.Error\<close>) makes it
  return that error after \<open>m + 1\<close> writes and \<open>m + 1\<close> reads: the failing operation
  is the last one.
\<close>

theorem Scrape_retry_policy:
  assumes len: "length ih \<le> 74" and hex: "hex_Decode (concat ih) = Inr dst"
  shows
   "((Minute < age g w \<or> conn g \<noteq> None) \<and> dial_result w (dials (trace w)) = None \<and>
     (\<forall>k b. write_result w k b = (int (length b), None)) \<and>
     (\<forall>k. is_timeout (snd (read_result w k))) \<and>
     0 \<le> sint (retries g) \<and> sint (retries g) < 2 ^ 63 - 1
     \<longrightarrow> (\<exists>g' w'. Scrape ih g w = Some (Inl ErrRetryLimit, g', w') \<and>
            writes (trace w') = writes (trace w) + nat (sint (retries g) + 1))) \<and>
    (Minute < age g w \<and> dial_result w (dials (trace w)) = None \<and>
     (\<forall>j<m. \<forall>b. write_result w (writes (trace w) + j) b = (int (length b), None)) \<and>
     (\<forall>j<m. is_timeout (snd (read_result w (reads (trace w) + j)))) \<and>
     (m = 0 \<or> int m \<le> sint (retries g))
     \<longrightarrow>
       ((\<forall>b. snd (write_result w (writes (trace w) + m) b) = Some e)
          \<longrightarrow> (\<exists>g' w'. Scrape ih g w = Some (Inl e, g', w') \<and>
                 writes (trace w') = writes (trace w) + m + 1 \<and>
                 reads (trace w') = reads (trace w) + m)) \<and>
       ((\<forall>b. snd (write_result w (writes (trace w) + m) b) = None \<and>
             fst (write_result w (writes (trace w) + m) b) \<noteq> int (length b))
          \<longrightarrow> (\<exists>g' w'. Scrape ih g w = Some (Inl ErrRequest, g', w') \<and>
                 writes (trace w') = writes (trace w) + m + 1 \<and>
                 reads (trace w') = reads (trace w) + m)) \<and>
       ((\<forall>b. write_result w (writes (trace w) + m) b = (int (length b), None)) \<and>
        snd (read_result w (reads (trace w) + m)) = Some (NetError False msg)
          \<longrightarrow> (\<exists>g' w'. Scrape ih g w = Some (Inl (NetError False msg), g', w') \<and>
                 writes (trace w') = writes (trace w) + m + 1 \<and>
                 reads (trace w') = reads (trace w) + m + 1))) \<and>
    (connect g w = Some (Inr (Some cn, cid), g1, w1) \<and>
     (\<forall>j<m. \<forall>b. write_result w1 (writes (trace w1) + j) b = (int (length b), None)) \<and>
     (\<forall>j<m. is_timeout (snd (read_result w1 (reads (trace w1) + j)))) \<and>
     (m = 0 \<or> int m \<le> sint (retries g1))
     \<longrightarrow>
       ((\<forall>b. snd (write_result w1 (writes (trace w1) + m) b) = Some e)
          \<longrightarrow> (\<exists>w'. Scrape ih g w = Some (Inl e, g1, w') \<and>
                 writes (trace w') = writes (trace w1) + m + 1 \<and>
                 reads (trace w') = reads (trace w1) + m)) \<and>
       ((\<forall>b. snd (write_result w1 (writes (trace w1) + m) b) = None \<and>
             fst (write_result w1 (writes (trace w1) + m) b) \<noteq> int (length b))
          \<longrightarrow> (\<exists>w'. Scrape ih g w = Some (Inl ErrRequest, g1, w') \<and>
                 writes (trace w') = writes (trace w1) + m + 1 \<and>
                 reads (trace w') = reads (trace w1) + m)) \<and>
       ((\<forall>b. write_result w1 (writes (trace w1) + m) b = (int (length b), None)) \<and>
        snd (read_result w1 (reads (trace w1) + m)) = Some (NetError False msg)
          \<longrightarrow> (\<exists>w'. Scrape ih g w = Some (Inl (NetError False msg), g1, w') \<and>
                 writes (trace w') = writes (trace w1) + m + 1 \<and>
                 reads (trace w') = reads (trace w1) + m + 1)))"
proof (intro conjI)
  show "(Minute < age g w \<or> conn g \<noteq> None) \<and> dial_result w (dials (trace w)) = None \<and>
     (\<forall>k b. write_result w k b = (int (length b), None)) \<and>
     (\<forall>k. is_timeout (snd (read_result w k))) \<and>
     0 \<le> sint (retries g) \<and> sint (retries g) < 2 ^ 63 - 1
     \<longrightarrow> (\<exists>g' w'. Scrape ih g w = Some (Inl ErrRetryLimit, g', w') \<and>
            writes (trace w') = writes (trace w) + nat (sint (retries g) + 1))"
  proof (intro impI, elim conjE)
    assume cn: "Minute < age g w \<or> conn g \<noteq> None"
      and dl: "dial_result w (dials (trace w)) = None"
      and wr: "\<forall>k b. write_result w k b = (int (length b), None)"
      and rd: "\<forall>k. is_timeout (snd (read_result w k))"
      and nn: "0 \<le> sint (retries g)" and lim: "sint (retries g) < 2 ^ 63 - 1"
    have wr': "\<forall>j b. write_result w (writes (trace w) + j) b = (int (length b), None)"
      using wr by simp
    have rd': "\<forall>j. is_timeout (snd (read_result w (reads (trace w) + j)))"
      using rd by simp
    have "max 1 (sint (retries g) + 1) = sint (retries g) + 1" using nn by simp
    with Scrape_all_timeouts [OF len hex cn dl wr' rd' lim]
    show "\<exists>g' w'. Scrape ih g w = Some (Inl ErrRetryLimit, g', w') \<and>
            writes (trace w') = writes (trace w) + nat (sint (retries g) + 1)"
      by auto
  qed
next
  show "Minute < age g w \<and> dial_result w (dials (trace w)) = None \<and>
     (\<forall>j<m. \<forall>b. write_result w (writes (trace w) + j) b = (int (length b), None)) \<and>
     (\<forall>j<m. is_timeout (snd (read_result w (reads (trace w) + j)))) \<and>
     (m = 0 \<or> int m \<le> sint (retries g))
     \<longrightarrow>
       ((\<forall>b. snd (write_result w (writes (trace w) + m) b) = Some e)
          \<longrightarrow> (\<exists>g' w'. Scrape ih g w = Some (Inl e, g', w') \<and>
                 writes (trace w') = writes (trace w) + m + 1 \<and>
                 reads (trace w') = reads (trace w) + m)) \<and>
       ((\<forall>b. snd (write_result w (writes (trace w) + m) b) = None \<and>
             fst (write_result w (writes (trace w) + m) b) \<noteq> int (length b))
          \<longrightarrow> (\<exists>g' w'. Scrape ih g w = Some (Inl ErrRequest, g', w') \<and>
                 writes (trace w') = writes (trace w) + m + 1 \<and>
                 reads (trace w') = reads (trace w) + m)) \<and>
       ((\<forall>b. write_result w (writes (trace w) + m) b = (int (length b), None)) \<and>
        snd (read_result w (reads (trace w) + m)) = Some (NetError False msg)
          \<longrightarrow> (\<exists>g' w'. Scrape ih g w = Some (Inl (NetError False msg), g', w') \<and>
                 writes (trace w') = writes (trace w) + m + 1 \<and>
                 reads (trace w') = reads (trace w) + m + 1))"
  proof (intro impI, elim conjE)
    assume "Minute < age g w" "dial_result w (dials (trace w)) = None"
      "\<forall>j<m. \<forall>b. write_result w (writes (trace w) + j) b = (int (length b), None)"
      "\<forall>j<m. is_timeout (snd (read_result w (reads (trace w) + j)))"
      "m = 0 \<or> int m \<le> sint (retries g)"
    then show "((\<forall>b. snd (write_result w (writes (trace w) + m) b) = Some e)
          \<longrightarrow> (\<exists>g' w'. Scrape ih g w = Some (Inl e, g', w') \<and>
                 writes (trace w') = writes (trace w) + m + 1 \<and>
                 reads (trace w') = reads (trace w) + m)) \<and>
       ((\<forall>b. snd (write_result w (writes (trace w) + m) b) = None \<and>
             fst (write_result w (writes (trace w) + m) b) \<noteq> int (length b))
          \<longrightarrow> (\<exists>g' w'. Scrape ih g w = Some (Inl ErrRequest, g', w') \<and>
                 writes (trace w') = writes (trace w) + m + 1 \<and>
                 reads (trace w') = reads (trace w) + m)) \<and>
       ((\<forall>b. write_result w (writes (trace w) + m) b = (int (length b), None)) \<and>
        snd (read_result w (reads (trace w) + m)) = Some (NetError False msg)
          \<longrightarrow> (\<exists>g' w'. Scrape ih g w = Some (Inl (NetError False msg), g', w') \<and>
                 writes (trace w') = writes (trace w) + m + 1 \<and>
                 reads (trace w') = reads (trace w) + m + 1))"
      by (rule Scrape_handshake_after_timeouts [OF len])
  qed
next
  show "connect g w = Some (Inr (Some cn, cid), g1, w1) \<and>
     (\<forall>j<m. \<forall>b. write_result w1 (writes (trace w1) + j) b = (int (length b), None)) \<and>
     (\<forall>j<m. is_timeout (snd (read_result w1 (reads (trace w1) + j)))) \<and>
     (m = 0 \<or> int m \<le> sint (retries g1))
     \<longrightarrow>
       ((\<forall>b. snd (write_result w1 (writes (trace w1) + m) b) = Some e)
          \<longrightarrow> (\<exists>w'. Scrape ih g w = Some (Inl e, g1, w') \<and>
                 writes (trace w') = writes (trace w1) + m + 1 \<and>
                 reads (trace w') = reads (trace w1) + m)) \<and>
       ((\<forall>b. snd (write_result w1 (writes (trace w1) + m) b) = None \<and>
             fst (write_result w1 (writes (trace w1) + m) b) \<noteq> int (length b))
          \<longrightarrow> (\<exists>w'. Scrape ih g w = Some (Inl ErrRequest, g1, w') \<and>
                 writes (trace w') = writes (trace w1) + m + 1 \<and>
                 reads (trace w') = reads (trace w1) + m)) \<and>
       ((\<forall>b. write_result w1 (writes (trace w1) + m) b = (int (length b), None)) \<and>
        snd (read_result w1 (reads (trace w1) + m)) = Some (NetError False msg)
          \<longrightarrow> (\<exists>w'. Scrape ih g w = Some (Inl (NetError False msg), g1, w') \<and>
                 writes (trace w') = writes (trace w1) + m + 1 \<and>
                 reads (trace w') = reads (trace w1) + m + 1))"
  proof (intro impI, elim conjE)
    assume "connect g w = Some (Inr (Some cn, cid), g1, w1)"
      "\<forall>j<m. \<forall>b. write_result w1 (writes (trace w1) + j) b = (int (length b), None)"
      "\<forall>j<m. is_timeout (snd (read_result w1 (reads (trace w1) + j)))"
      "m = 0 \<or> int m \<le> sint (retries g1)"
    then show "((\<forall>b. snd (write_result w1 (writes (trace w1) + m) b) = Some e)
          \<longrightarrow> (\<exists>w'. Scrape ih g w = Some (Inl e, g1, w') \<and>
                 writes (trace w') = writes (trace w1) + m + 1 \<and>
                 reads (trace w') = reads (trace w1) + m)) \<and>
       ((\<forall>b. snd (write_result w1 (writes (trace w1) + m) b) = None \<and>
             fst (write_result w1 (writes (trace w1) + m) b) \<noteq> int (length b))
          \<longrightarrow> (\<exists>w'. Scrape ih g w = Some (Inl ErrRequest, g1, w') \<and>
                 writes (trace w') = writes (trace w1) + m + 1 \<and>
                 reads (trace w') = reads (trace w1) + m)) \<and>
       ((\<forall>b. write_result w1 (writes (trace w1) + m) b = (int (length b), None)) \<and>
        snd (read_result w1 (reads (trace w1) + m)) = Some (NetError False msg)
          \<longrightarrow> (\<exists>w'. Scrape ih g w = Some (Inl (NetError False msg), g1, w') \<and>
                 writes (trace w') = writes (trace w1) + m + 1 \<and>
                 reads (trace w') = reads (trace w1) + m + 1))"
      by (rule Scrape_exchange_after_timeouts [OF len hex])
  qed
qed

theorem Scrape_retry_policy_witness:
  "(\<exists>g' w'. Scrape infohashes0 tracker0 world_timeouts = Some (Inl ErrRetryLimit, g', w') \<and>
      writes (trace w') = 4) \<and>
   (\<exists>w'. Scrape infohashes0 tracker1 world_write_fails = Some (Inl refused_error, tracker1, w') \<and>
      writes (trace w') = 2 \<and> reads (trace w') = 1) \<and>
   (\<exists>w'. Scrape infohashes0 tracker1 world_short_write = Some (Inl ErrRequest, tracker1, w') \<and>
      writes (trace w') = 2 \<and> reads (trace w') = 1) \<and>
   (\<exists>w'. Scrape infohashes0 tracker1 world_read_fails = Some (Inl refused_error, tracker1, w') \<and>
      writes (trace w') = 2 \<and> reads (trace w') = 2) \<and>
   (\<exists>g' w'. Scrape infohashes0 tracker0 world_write_fails = Some (Inl refused_error, g', w') \<and>
      writes (trace w') = 2 \<and> reads (trace w') = 1) \<and>
   (\<exists>g' w'. Scrape infohashes0 tracker0 world_read_fails = Some (Inl refused_error, g', w') \<and>
      writes (trace w') = 2 \<and> reads (trace w') = 2) \<and>
   (\<exists>w'. Scrape infohashes0 (SetRetryLimit (-5) tracker1) world_no_write
            = Some (Inl refused_error, SetRetryLimit (-5) tracker1, w') \<and>
      writes (trace w') = 1 \<and> reads (trace w') = 0)"
proof -
  have len: "length infohashes0 \<le> 74" by (simp add: infohashes0_def)
  have "case hex_Decode (concat infohashes0) of Inl e \<Rightarrow> False | Inr d \<Rightarrow> True"
    by code_simp
  then obtain dst where hex: "hex_Decode (concat infohashes0) = Inr dst"
    by (cases "hex_Decode (concat infohashes0)") auto
  have nt: "\<not> is_timeout (Some refused_error)" "is_timeout (Some timeout_error)"
    by (simp_all add: is_timeout_def refused_error_def timeout_error_def)
  have lim: "int 1 \<le> sint (retries tracker1)" by (simp add: tracker1_def)
  \<comment> \<open>every read times out\<close>
  have a: "\<exists>g' w'. Scrape infohashes0 tracker0 world_timeouts = Some (Inl ErrRetryLimit, g', w')
      \<and> writes (trace w') = 4"
  proof -
    have "Minute < age tracker0 world_timeouts \<or> conn tracker0 \<noteq> None"
      by (simp add: age_def time_Sub_def Minute_def Second_def tracker0_def world_timeouts_def
          world0_def)
    moreover have "dial_result world_timeouts (dials (trace world_timeouts)) = None"
      "\<forall>k b. write_result world_timeouts k b = (int (length b), None)"
      "\<forall>k. is_timeout (snd (read_result world_timeouts k))"
      using nt by (simp_all add: world_timeouts_def world0_def)
    moreover have "0 \<le> sint (retries tracker0)" "sint (retries tracker0) < 2 ^ 63 - 1"
      "nat (sint (retries tracker0) + 1) = 4" "writes (trace world_timeouts) = 0"
      by (simp_all add: tracker0_def world_timeouts_def world0_def evs_simps)
    ultimately show ?thesis
      using Scrape_retry_policy [where g = tracker0 and w = world_timeouts, OF len hex,
          THEN conjunct1]
      by auto
  qed
  \<comment> \<open>a write error on the second attempt\<close>
  have b: "\<exists>w'. Scrape infohashes0 tracker1 world_write_fails
                  = Some (Inl refused_error, tracker1, w') \<and>
      writes (trace w') = 2 \<and> reads (trace w') = 1"
  proof -
    let ?w = world_write_fails
    let ?w1 = "?w\<lparr>clock_calls := Suc 0\<rparr>"
    have co: "connect tracker1 ?w = Some (Inr (Some 0, 0x0102030405060708), tracker1, ?w1)"
      by (rule fresh_connect_tracker1)
         (simp_all add: world_write_fails_def world_retry_def world30_def world0_def)
    have t: "trace ?w1 = []"
      by (simp add: world_write_fails_def world_retry_def world30_def world0_def)
    have h: "\<forall>j<1. \<forall>b. write_result ?w1 (writes (trace ?w1) + j) b = (int (length b), None)"
      "\<forall>j<1. is_timeout (snd (read_result ?w1 (reads (trace ?w1) + j)))"
      "\<forall>b. snd (write_result ?w1 (writes (trace ?w1) + 1) b) = Some refused_error"
      using nt unfolding t
      by (simp_all add: world_write_fails_def world_retry_def world30_def world0_def evs_simps)
    from Scrape_retry_policy [where g = tracker1 and w = ?w and cn = 0
        and cid = "0x0102030405060708" and ?g1.0 = tracker1 and ?w1.0 = ?w1 and m = 1
        and e = refused_error, OF len hex, THEN conjunct2, THEN conjunct2] co h lim
    show ?thesis unfolding t by (simp add: evs_simps numeral_2_eq_2)
  qed
  \<comment> \<open>a short write on the second attempt\<close>
  have c: "\<exists>w'. Scrape infohashes0 tracker1 world_short_write
                  = Some (Inl ErrRequest, tracker1, w') \<and>
      writes (trace w') = 2 \<and> reads (trace w') = 1"
  proof -
    let ?w = world_short_write
    let ?w1 = "?w\<lparr>clock_calls := Suc 0\<rparr>"
    have co: "connect tracker1 ?w = Some (Inr (Some 0, 0x0102030405060708), tracker1, ?w1)"
      by (rule fresh_connect_tracker1)
         (simp_all add: world_short_write_def world_retry_def world30_def world0_def)
    have t: "trace ?w1 = []"
      by (simp add: world_short_write_def world_retry_def world30_def world0_def)
    have h: "\<forall>j<1. \<forall>b. write_result ?w1 (writes (trace ?w1) + j) b = (int (length b), None)"
      "\<forall>j<1. is_timeout (snd (read_result ?w1 (reads (trace ?w1) + j)))"
      "\<forall>b. snd (write_result ?w1 (writes (trace ?w1) + 1) b) = None \<and>
           fst (write_result ?w1 (writes (trace ?w1) + 1) b) \<noteq> int (length b)"
      using nt unfolding t
      by (simp_all add: world_short_write_def world_retry_def world30_def world0_def evs_simps)
    from Scrape_retry_policy [where g = tracker1 and w = ?w and cn = 0
        and cid = "0x0102030405060708" and ?g1.0 = tracker1 and ?w1.0 = ?w1 and m = 1
        and e = refused_error, OF len hex, THEN conjunct2, THEN conjunct2] co h lim
    show ?thesis unfolding t by (simp add: evs_simps numeral_2_eq_2)
  qed
  \<comment> \<open>a read error that is no timeout on the second attempt\<close>
  have d: "\<exists>w'. Scrape infohashes0 tracker1 world_read_fails
                  = Some (Inl refused_error, tracker1, w') \<and>
      writes (trace w') = 2 \<and> reads (trace w') = 2"
  proof -
    let ?w = world_read_fails
    let ?w1 = "?w\<lparr>clock_calls := Suc 0\<rparr>"
    have co: "connect tracker1 ?w = Some (Inr (Some 0, 0x0102030405060708), tracker1, ?w1)"
      by (rule fresh_connect_tracker1)
         (simp_all add: world_read_fails_def world_retry_def world30_def world0_def)
    have t: "trace ?w1 = []"
      by (simp add: world_read_fails_def world_retry_def world30_def world0_def)
    have h: "\<forall>j<1. \<forall>b. write_result ?w1 (writes (trace ?w1) + j) b = (int (length b), None)"
      "\<forall>j<1. is_timeout (snd (read_result ?w1 (reads (trace ?w1) + j)))"
      "\<forall>b. write_result ?w1 (writes (trace ?w1) + 1) b = (int (length b), None)"
      "snd (read_result ?w1 (reads (trace ?w1) + 1)) = Some (NetError False ''connection refused'')"
      using nt unfolding t
      by (simp_all add: world_read_fails_def world_retry_def world30_def world0_def evs_simps
          refused_error_def)
    from Scrape_retry_policy [where g = tracker1 and w = ?w and cn = 0
        and cid = "0x0102030405060708" and ?g1.0 = tracker1 and ?w1.0 = ?w1 and m = 1
        and msg = "''connection refused''", OF len hex, THEN conjunct2, THEN conjunct2] co h lim
    show ?thesis unfolding t by (simp add: evs_simps numeral_2_eq_2 refused_error_def)
  qed
  \<comment> \<open>the same failures in the handshake of a stale session\<close>
  have lim0: "int 1 \<le> sint (retries tracker0)" by (simp add: tracker0_def)
  have e: "\<exists>g' w'. Scrape infohashes0 tracker0 world_write_fails
                  = Some (Inl refused_error, g', w') \<and>
      writes (trace w') = 2 \<and> reads (trace w') = 1"
  proof -
    let ?w = world_write_fails
    have st: "Minute < age tracker0 ?w"
      by (simp add: age_def time_Sub_def Minute_def Second_def tracker0_def
          world_write_fails_def world_retry_def world30_def world0_def)
    have t: "trace ?w = []"
      by (simp add: world_write_fails_def world_retry_def world30_def world0_def)
    have h: "dial_result ?w (dials (trace ?w)) = None"
      "\<forall>j<1. \<forall>b. write_result ?w (writes (trace ?w) + j) b = (int (length b), None)"
      "\<forall>j<1. is_timeout (snd (read_result ?w (reads (trace ?w) + j)))"
      "\<forall>b. snd (write_result ?w (writes (trace ?w) + 1) b) = Some refused_error"
      using nt unfolding t
      by (simp_all add: world_write_fails_def world_retry_def world30_def world0_def evs_simps)
    from Scrape_retry_policy [where g = tracker0 and w = ?w and m = 1
        and e = refused_error, OF len hex, THEN conjunct2, THEN conjunct1] st h lim0
    show ?thesis unfolding t by (simp add: evs_simps numeral_2_eq_2)
  qed
  have f: "\<exists>g' w'. Scrape infohashes0 tracker0 world_read_fails
                  = Some (Inl refused_error, g', w') \<and>
      writes (trace w') = 2 \<and> reads (trace w') = 2"
  proof -
    let ?w = world_read_fails
    have st: "Minute < age tracker0 ?w"
      by (simp add: age_def time_Sub_def Minute_def Second_def tracker0_def
          world_read_fails_def world_retry_def world30_def world0_def)
    have t: "trace ?w = []"
      by (simp add: world_read_fails_def world_retry_def world30_def world0_def)
    have h: "dial_result ?w (dials (trace ?w)) = None"
      "\<forall>j<1. \<forall>b. write_result ?w (writes (trace ?w) + j) b = (int (length b), None)"
      "\<forall>j<1. is_timeout (snd (read_result ?w (reads (trace ?w) + j)))"
      "\<forall>b. write_result ?w (writes (trace ?w) + 1) b = (int (length b), None)"
      "snd (read_result ?w (reads (trace ?w) + 1)) = Some (NetError False ''connection refused'')"
      using nt unfolding t
      by (simp_all add: world_read_fails_def world_retry_def world30_def world0_def evs_simps
          refused_error_def)
    from Scrape_retry_policy [where g = tracker0 and w = ?w and m = 1
        and msg = "''connection refused''", OF len hex, THEN conjunct2, THEN conjunct1] st h lim0
    show ?thesis unfolding t by (simp add: evs_simps numeral_2_eq_2 refused_error_def)
  qed
  \<comment> \<open>a write error on the first attempt, with a negative limit\<close>
  have g: "\<exists>w'. Scrape infohashes0 (SetRetryLimit (-5) tracker1) world_no_write
                  = Some (Inl refused_error, SetRetryLimit (-5) tracker1, w') \<and>
      writes (trace w') = 1 \<and> reads (trace w') = 0"
  proof -
    let ?g = "SetRetryLimit (-5) tracker1"
    let ?w = world_no_write
    let ?w1 = "?w\<lparr>clock_calls := Suc 0\<rparr>"
    have fr: "\<not> Minute < age ?g ?w"
      by (simp add: age_def time_Sub_def Minute_def Second_def SetRetryLimit_def tracker1_def
          world_no_write_def world30_def world0_def)
    have sel: "conn ?g = Some 0" "connectionID ?g = 0x0102030405060708" "clock_calls ?w = 0"
      by (simp_all add: SetRetryLimit_def tracker1_def world_no_write_def world30_def world0_def)
    have co: "connect ?g ?w = Some (Inr (Some 0, 0x0102030405060708), ?g, ?w1)"
      using connect_fresh [OF fr] by (simp add: sel advance_def)
    have t: "trace ?w1 = []"
      by (simp add: world_no_write_def world30_def world0_def)
    have h: "\<forall>b. snd (write_result ?w1 (writes (trace ?w1) + 0) b) = Some refused_error"
      unfolding t by (simp add: world_no_write_def world30_def world0_def evs_simps)
    from Scrape_retry_policy [where g = ?g and w = ?w and cn = 0
        and cid = "0x0102030405060708" and ?g1.0 = ?g and ?w1.0 = ?w1 and m = 0
        and e = refused_error, OF len hex, THEN conjunct2, THEN conjunct2] co h
    show ?thesis unfolding t by (simp add: evs_simps)
  qed
  from a b c d e f g show ?thesis by blast
qed

text \<open>
  The claim as stated fails outside these limits. With the limit \<open>-3\<close> and every read
  timing out, the scrape exchange fails with \<open>ErrRetryLimit\<close> after one write and
  one read, where \<open>retryLimit + 1\<close> is \<open>-2\<close>; with the largest \<open>int\<close> as limit
  the call never returns.
\<close>

theorem Scrape_retry_limit_out_of_range:
  "map_option fst (Scrape infohashes0 (SetRetryLimit (-3) tracker1) world30_timeouts)
     = Some (Inl ErrRetryLimit) \<and>
   map_option (writes \<circ> trace \<circ> snd \<circ> snd)
       (Scrape infohashes0 (SetRetryLimit (-3) tracker1) world30_timeouts) = Some 1 \<and>
   map_option (reads \<circ> trace \<circ> snd \<circ> snd)
       (Scrape infohashes0 (SetRetryLimit (-3) tracker1) world30_timeouts) = Some 1 \<and>
   sint (retries (SetRetryLimit (-3) tracker1)) + 1 = -2 \<and>
   Scrape infohashes0 (SetRetryLimit 0x7FFFFFFFFFFFFFFF tracker1) world30_timeouts = None"
proof -
  let ?g = "SetRetryLimit (-3) tracker1"
  have a: "map_option fst (Scrape infohashes0 ?g world30_timeouts) = Some (Inl ErrRetryLimit)"
    by code_simp
  have b: "map_option (writes \<circ> trace \<circ> snd \<circ> snd)
       (Scrape infohashes0 ?g world30_timeouts) = Some 1"
    by code_simp
  have c: "map_option (reads \<circ> trace \<circ> snd \<circ> snd)
       (Scrape infohashes0 ?g world30_timeouts) = Some 1"
    by code_simp
  have d: "sint (retries ?g) + 1 = -2" by (simp add: SetRetryLimit_def)
  let ?g1 = "SetRetryLimit 0x7FFFFFFFFFFFFFFF tracker1"
  have w2: "\<forall>k b. write_result world30_timeouts k b = (int (length b), None)"
    "\<forall>k. is_timeout (snd (read_result world30_timeouts k))"
    by (simp_all add: world30_timeouts_def world30_def world0_def is_timeout_def timeout_error_def)
  have fr: "\<not> Minute < age ?g1 world30_timeouts"
    by (simp add: age_def time_Sub_def Minute_def Second_def SetRetryLimit_def tracker1_def
        world30_timeouts_def world30_def world0_def)
  have sel: "conn ?g1 = Some 0" "retries ?g1 = max_int"
    by (simp_all add: SetRetryLimit_def tracker1_def max_int_def)
  have co: "connect ?g1 world30_timeouts
              = Some (Inr (Some 0, connectionID ?g1), ?g1, advance world30_timeouts [] 0 1)"
    using connect_fresh [OF fr] by (simp add: sel)
  have len: "length infohashes0 \<le> 74" by (simp add: infohashes0_def)
  have "case hex_Decode (concat infohashes0) of Inl e \<Rightarrow> False | Inr d \<Rightarrow> True"
    by code_simp
  then obtain dst where hex: "hex_Decode (concat infohashes0) = Inr dst"
    by (cases "hex_Decode (concat infohashes0)") auto
  have "Scrape infohashes0 ?g1 world30_timeouts = None"
    unfolding Scrape_unfold [OF len co hex]
    using w2 by (simp add: sel Scrape_loop_diverges advance_simps)
  with a b c d show ?thesis by simp
qed

text \<open>
  Claim C10, as amended. For every retry limit \<open>n\<close> set with \<open>SetRetryLimit\<close> other
  than the largest \<open>int\<close>, negative limits and zero included: when the dial (if one is
  needed) succeeds, every write is complete and every read times out, \<open>Scrape\<close> fails
  with \<open>ErrRetryLimit\<close> after exactly \<open>max 1 (n + 1)\<close> writes and as many reads; so at
  least one write and one read are always performed.
\<close>

theorem retry_limit_attempts:
  assumes len: "length ih \<le> 74" and hex: "hex_Decode (concat ih) = Inr dst"
    and cn: "Minute < age g w \<or> conn g \<noteq> None"
    and dl: "dial_result w (dials (trace w)) = None"
    and wr: "\<forall>k b. write_result w k b = (int (length b), None)"
    and rd: "\<forall>k. is_timeout (snd (read_result w k))"
    and lim: "sint n < 2 ^ 63 - 1"
  shows "\<exists>g' w'. Scrape ih (SetRetryLimit n g) w = Some (Inl ErrRetryLimit, g', w') \<and>
           writes (trace w') = writes (trace w) + nat (max 1 (sint n + 1)) \<and>
           reads (trace w') = reads (trace w) + nat (max 1 (sint n + 1)) \<and>
           writes (trace w) < writes (trace w') \<and> reads (trace w) < reads (trace w')"
proof -
  let ?g = "SetRetryLimit n g"
  have cn': "Minute < age ?g w \<or> conn ?g \<noteq> None"
    using cn by (simp add: SetRetryLimit_def age_def)
  have wr': "\<forall>j b. write_result w (writes (trace w) + j) b = (int (length b), None)"
    using wr by simp
  have rd': "\<forall>j. is_timeout (snd (read_result w (reads (trace w) + j)))"
    using rd by simp
  have lim': "sint (retries ?g) < 2 ^ 63 - 1" using lim by (simp add: SetRetryLimit_def)
  from Scrape_all_timeouts [OF len hex cn' dl wr' rd' lim']
  show ?thesis by (auto simp: SetRetryLimit_def)
qed

theorem retry_limit_attempts_witness:
  "sint (-5 :: go_int) < 2 ^ 63 - 1 \<and>
   (\<exists>g' w'. Scrape infohashes0 (SetRetryLimit (-5) tracker0) world_timeouts
               = Some (Inl ErrRetryLimit, g', w') \<and>
      writes (trace w') = 1 \<and> reads (trace w') = 1) \<and>
   (\<exists>g' w'. Scrape infohashes0 (SetRetryLimit 2 tracker1) world30_timeouts
               = Some (Inl ErrRetryLimit, g', w') \<and>
      writes (trace w') = 3 \<and> reads (trace w') = 3)"
proof -
  have len: "length infohashes0 \<le> 74" by (simp add: infohashes0_def)
  have "case hex_Decode (concat infohashes0) of Inl e \<Rightarrow> False | Inr d \<Rightarrow> True"
    by code_simp
  then obtain dst where hex: "hex_Decode (concat infohashes0) = Inr dst"
    by (cases "hex_Decode (concat infohashes0)") auto
  have st: "Minute < age tracker0 world_timeouts \<or> conn tracker0 \<noteq> None"
    by (simp add: age_def time_Sub_def Minute_def Second_def tracker0_def world_timeouts_def
        world0_def)
  have cn: "Minute < age tracker1 world30_timeouts \<or> conn tracker1 \<noteq> None"
    by (simp add: tracker1_def)
  have t0: "trace world_timeouts = []" "trace world30_timeouts = []"
    by (simp_all add: world_timeouts_def world30_timeouts_def world30_def world0_def)
  have d0: "dial_result world_timeouts (dials (trace world_timeouts)) = None"
    "dial_result world30_timeouts (dials (trace world30_timeouts)) = None"
    by (simp_all add: world_timeouts_def world30_timeouts_def world30_def world0_def)
  have w1: "\<forall>k b. write_result world_timeouts k b = (int (length b), None)"
    "\<forall>k. is_timeout (snd (read_result world_timeouts k))"
    by (simp_all add: world_timeouts_def world0_def is_timeout_def timeout_error_def)
  have w2: "\<forall>k b. write_result world30_timeouts k b = (int (length b), None)"
    "\<forall>k. is_timeout (snd (read_result world30_timeouts k))"
    by (simp_all add: world30_timeouts_def world30_def world0_def is_timeout_def timeout_error_def)
  have l1: "sint (-5 :: go_int) < 2 ^ 63 - 1" by simp
  have l2: "sint (2 :: go_int) < 2 ^ 63 - 1" by simp
  from retry_limit_attempts [OF len hex st d0(1) w1 l1]
  have a: "\<exists>g' w'. Scrape infohashes0 (SetRetryLimit (-5) tracker0) world_timeouts
               = Some (Inl ErrRetryLimit, g', w') \<and>
      writes (trace w') = 1 \<and> reads (trace w') = 1"
    by (auto simp: t0 evs_simps)
  from retry_limit_attempts [OF len hex cn d0(2) w2 l2]
  have b: "\<exists>g' w'. Scrape infohashes0 (SetRetryLimit 2 tracker1) world30_timeouts
               = Some (Inl ErrRetryLimit, g', w') \<and>
      writes (trace w') = 3 \<and> reads (trace w') = 3"
    by (auto simp: t0 evs_simps)
  from l1 a b show ?thesis by blast
qed

text \<open>
  With the largest \<open>int\<close> as limit the test \<open>retries > g.retries\<close> of either loop is
  never true: when every read times out, \<open>Scrape\<close> never returns, be it in the handshake
  (first conjunct) or in the scrape exchange (second conjunct).
\<close>

theorem retry_limit_max_int_never_fails:
  "Scrape [] (SetRetryLimit 0x7FFFFFFFFFFFFFFF tracker0) world_timeouts = None \<and>
   Scrape [] (SetRetryLimit 0x7FFFFFFFFFFFFFFF tracker1) world30_timeouts = None"
proof -
  have w1: "\<forall>k b. write_result world_timeouts k b = (int (length b), None)"
    "\<forall>k. is_timeout (snd (read_result world_timeouts k))"
    by (simp_all add: world_timeouts_def world0_def is_timeout_def timeout_error_def)
  have w2: "\<forall>k b. write_result world30_timeouts k b = (int (length b), None)"
    "\<forall>k. is_timeout (snd (read_result world30_timeouts k))"
    by (simp_all add: world30_timeouts_def world30_def world0_def is_timeout_def timeout_error_def)
  let ?g0 = "SetRetryLimit 0x7FFFFFFFFFFFFFFF tracker0"
  let ?g1 = "SetRetryLimit 0x7FFFFFFFFFFFFFFF tracker1"
  have st: "Minute < age ?g0 world_timeouts"
    by (simp add: age_def time_Sub_def Minute_def Second_def SetRetryLimit_def tracker0_def
        world_timeouts_def world0_def)
  have d0: "dial_result world_timeouts (dials (trace world_timeouts)) = None"
    by (simp add: world_timeouts_def world0_def)
  have r0: "retries ?g0 = max_int" by (simp add: SetRetryLimit_def max_int_def)
  have "connect ?g0 world_timeouts = None"
    unfolding connect_stale [OF st]
    using d0 w1 by (simp add: Let_def r0 connect_loop_diverges advance_simps)
  then have a: "Scrape [] ?g0 world_timeouts = None" by (simp add: Scrape_def)
  have fr: "\<not> Minute < age ?g1 world30_timeouts"
    by (simp add: age_def time_Sub_def Minute_def Second_def SetRetryLimit_def tracker1_def
        world30_timeouts_def world30_def world0_def)
  have sel: "conn ?g1 = Some 0" "retries ?g1 = max_int"
    by (simp_all add: SetRetryLimit_def tracker1_def max_int_def)
  have co: "connect ?g1 world30_timeouts
              = Some (Inr (Some 0, connectionID ?g1), ?g1, advance world30_timeouts [] 0 1)"
    using connect_fresh [OF fr] by (simp add: sel)
  have hex: "hex_Decode (concat ([] :: byte list list)) = Inr []" by simp
  have len: "length ([] :: byte list list) \<le> 74" by simp
  have "Scrape [] ?g1 world30_timeouts = None"
    unfolding Scrape_unfold [OF len co hex]
    using w2 by (simp add: sel Scrape_loop_diverges advance_simps)
  with a show ?thesis by simp
qed

section \<open>Infohashes that are not hexadecimal\<close>

text \<open>
  Claim C3, as amended. Let the list have at most 74 entries and let \<open>connect\<close> have
  returned without error (after dialling and the handshake, when the session was stale).
  If the concatenation of the entries has odd length or contains a byte that is no
  hexadecimal digit, \<open>Scrape\<close> fails with the error of \<open>hex.Decode\<close>, which is
  \<open>ErrLength\<close> or \<open>InvalidByteError\<close> of a byte of the input, and the world is the one
  \<open>connect\<close> left but for the call of the random source: no scrape datagram is written.
  If the concatenation is an even number of hexadecimal digits, whatever the length of
  the single entries, decoding succeeds and every returning run on a connection has
  written the scrape request next.
\<close>

theorem Scrape_hex_check:
  assumes len: "length ih \<le> 74" and co: "connect g w = Some (Inr (c, cid), g1, w1)"
  shows
   "(odd (length (concat ih)) \<or> (\<exists>b\<in>set (concat ih). 0x0f < reverseHexTable b)
      \<longrightarrow> (\<exists>e. hex_Decode (concat ih) = Inl e \<and>
             (e = ErrLength \<or> (\<exists>b\<in>set (concat ih). e = InvalidByteError b)) \<and>
             Scrape ih g w = Some (Inl e, g1, w1\<lparr>rand_calls := Suc (rand_calls w1)\<rparr>))) \<and>
    (even (length (concat ih)) \<and> (\<forall>b\<in>set (concat ih). reverseHexTable b \<le> 0x0f)
      \<longrightarrow> (\<exists>dst. hex_Decode (concat ih) = Inr dst \<and>
             (\<forall>cn res g' w'. c = Some cn \<and> Scrape ih g w = Some (res, g', w') \<longrightarrow>
                (\<exists>evs. trace w' = trace w1 @
                   Write cn (scrape_request cid (fst (transactionID w1)) (length ih) dst) # evs))))"
proof (intro conjI impI)
  assume "odd (length (concat ih)) \<or> (\<exists>b\<in>set (concat ih). 0x0f < reverseHexTable b)"
  then obtain e where e: "hex_Decode (concat ih) = Inl e"
    using hex_Decode_Inl_iff [of "concat ih"] by blast
  have "Scrape ih g w = Some (Inl e, g1, w1\<lparr>rand_calls := Suc (rand_calls w1)\<rparr>)"
    using len co e
    by (simp add: Scrape_def Let_def case_prod_beta transactionID_def rand_Int31_def
        rand_Int63_def)
  with e hex_Decode_error_kind [OF e]
  show "\<exists>e. hex_Decode (concat ih) = Inl e \<and>
             (e = ErrLength \<or> (\<exists>b\<in>set (concat ih). e = InvalidByteError b)) \<and>
             Scrape ih g w = Some (Inl e, g1, w1\<lparr>rand_calls := Suc (rand_calls w1)\<rparr>)"
    by blast
next
  assume ok: "even (length (concat ih)) \<and> (\<forall>b\<in>set (concat ih). reverseHexTable b \<le> 0x0f)"
  then have "\<not> (\<exists>e. hex_Decode (concat ih) = Inl e)"
    unfolding hex_Decode_Inl_iff by (auto simp: not_less)
  then obtain dst where hex: "hex_Decode (concat ih) = Inr dst"
    by (cases "hex_Decode (concat ih)") auto
  let ?buf = "scrape_request cid (fst (transactionID w1)) (length ih) dst"
  let ?resp0 = "replicate (8 + 12 * length ih) (0 :: byte)"
  let ?w2 = "advance w1 [] 1 0"
  have "\<forall>cn res g' w'. c = Some cn \<and> Scrape ih g w = Some (res, g', w') \<longrightarrow>
                (\<exists>evs. trace w' = trace w1 @ Write cn ?buf # evs)"
  proof (intro allI impI, elim conjE)
    fix cn res g' w'
    assume c: "c = Some cn" and s: "Scrape ih g w = Some (res, g', w')"
    from s Scrape_unfold [OF len co hex]
    obtain y where lp: "Scrape_loop (retries g1) c ?buf ?resp0 0 ?w2 = Some y"
      by (cases "Scrape_loop (retries g1) c ?buf ?resp0 0 ?w2") auto
    from s Scrape_unfold [OF len co hex] lp have w': "w' = snd y"
      by (cases y; cases "fst y") (auto split: if_splits)
    from Scrape_loop_sound [OF lp] c obtain evs where "snd y = more_trace ?w2 (Write cn ?buf # evs)"
      unfolding Scrape_loop_post_def by auto
    with w' show "\<exists>evs. trace w' = trace w1 @ Write cn ?buf # evs"
      by (simp add: advance_simps)
  qed
  with hex show "\<exists>dst. hex_Decode (concat ih) = Inr dst \<and>
             (\<forall>cn res g' w'. c = Some cn \<and> Scrape ih g w = Some (res, g', w') \<longrightarrow>
                (\<exists>evs. trace w' = trace w1 @
                   Write cn (scrape_request cid (fst (transactionID w1)) (length ih) dst) # evs))"
    by blast
qed

theorem Scrape_hex_check_witness:
  "(\<exists>b\<in>set (concat [bytes_of ''zz'']). 0x0f < reverseHexTable b) \<and>
   Scrape [bytes_of ''zz''] tracker1 world30
     = Some (Inl (InvalidByteError 0x7A), tracker1,
             world30\<lparr>clock_calls := Suc 0, rand_calls := Suc 0\<rparr>) \<and>
   odd (length (concat [bytes_of ''abc''])) \<and>
   Scrape [bytes_of ''abc''] tracker1 world30
     = Some (Inl ErrLength, tracker1, world30\<lparr>clock_calls := Suc 0, rand_calls := Suc 0\<rparr>)"
proof -
  let ?w1 = "world30\<lparr>clock_calls := Suc 0\<rparr>"
  have co: "connect tracker1 world30
              = Some (Inr (Some 0, 0x0102030405060708), tracker1, ?w1)"
    by (rule fresh_connect_tracker1) (simp_all add: world30_def world0_def)
  have rc: "rand_calls ?w1 = 0" by (simp add: world30_def world0_def)
  have zz: "\<exists>b\<in>set (concat [bytes_of ''zz'']). 0x0f < reverseHexTable b"
    by (simp add: bytes_of_def reverseHexTable_def)
  have d1: "hex_Decode (concat [bytes_of ''zz'']) = Inl (InvalidByteError 0x7A)"
    by code_simp
  have odd: "odd (length (concat [bytes_of ''abc'']))" by (simp add: bytes_of_def)
  have d2: "hex_Decode (concat [bytes_of ''abc'']) = Inl ErrLength"
    by code_simp
  from Scrape_hex_check [where ih = "[bytes_of ''zz'']", OF _ co, THEN conjunct1] zz d1
  have a: "Scrape [bytes_of ''zz''] tracker1 world30
     = Some (Inl (InvalidByteError 0x7A), tracker1,
             world30\<lparr>clock_calls := Suc 0, rand_calls := Suc 0\<rparr>)"
    by (simp add: rc)
  from Scrape_hex_check [where ih = "[bytes_of ''abc'']", OF _ co, THEN conjunct1] odd d2
  have b: "Scrape [bytes_of ''abc''] tracker1 world30
     = Some (Inl ErrLength, tracker1, world30\<lparr>clock_calls := Suc 0, rand_calls := Suc 0\<rparr>)"
    by (simp add: rc)
  from zz a odd b show ?thesis by blast
qed

text \<open>
  The claim as stated fails twice. With the entry \<open>zz\<close> and a stale session the call
  fails with \<open>InvalidByteError\<close> only after the tracker was dialled and the connect
  request written and answered. With the two-character entry \<open>ab\<close> the call succeeds.
\<close>

theorem Scrape_malformed_infohash_not_rejected_first:
  "map_option fst (Scrape [bytes_of ''zz''] tracker0 world0)
     = Some (Inl (InvalidByteError 0x7A)) \<and>
   map_option (trace \<circ> snd \<circ> snd) (Scrape [bytes_of ''zz''] tracker0 world0)
     = Some [Dial ''tracker.example:6969'', Write 0 (connect_request 0x12345678), Read 0 16] \<and>
   map_option fst (Scrape [bytes_of ''ab''] tracker0 world0)
     = Some (Inr [\<lparr>Infohash = bytes_of ''ab'', Seeders = 10, Leechers = 2, Completed = 50\<rparr>])"
  by code_simp

section \<open>The transaction ID of the connect response\<close>

text \<open>
  Claim C2 does not hold of the code. The source compares the transaction ID read from
  the response with itself (\<open>tid != tid\<close>, the inner \<open>tid\<close> hiding the one that was
  sent), so the test never fails. Here the request carries \<open>0x12345678\<close>, the response
  echoes \<open>0xDEADBEEF\<close>, and \<open>connect\<close> succeeds and installs the connection ID and the
  session timestamp.
\<close>

theorem connect_ignores_transaction_id:
  "fst (transactionID world_other_tid) = 0x12345678 \<and>
   Uint32 (drop 4 bad_connect_response) = 0xDEADBEEF \<and>
   map_option (trace \<circ> snd \<circ> snd) (connect tracker0 world_other_tid)
     = Some [Dial ''tracker.example:6969'',
             Write 0 [0, 0, 0x04, 0x17, 0x27, 0x10, 0x19, 0x80, 0, 0, 0, 0,
                      0x12, 0x34, 0x56, 0x78],
             Read 0 16] \<and>
   map_option fst (connect tracker0 world_other_tid)
     = Some (Inr (Some 0, 0x0102030405060708)) \<and>
   map_option (connectionID \<circ> fst \<circ> snd) (connect tracker0 world_other_tid)
     = Some 0x0102030405060708 \<and>
   map_option (session \<circ> fst \<circ> snd) (connect tracker0 world_other_tid)
     = Some (100 * Minute)"
  by code_simp

section \<open>The request size limit\<close>

text \<open>
  Claim C7. A call of \<open>Scrape\<close> with more than 74 infohashes fails with
  \<open>ErrTooManyInfohash\<close>, and neither the struct nor the world changes: nothing is
  dialled, written or read, the clock and the random source are not consulted.
\<close>

theorem Scrape_too_many:
  "74 < length infohash \<Longrightarrow> Scrape infohash g w = Some (Inl ErrTooManyInfohash, g, w)"
  by (simp add: Scrape_def)

theorem Scrape_too_many_witness:
  "74 < length (replicate 75 (bytes_of ''00'')) \<and>
   Scrape (replicate 75 (bytes_of ''00'')) tracker0 world0
     = Some (Inl ErrTooManyInfohash, tracker0, world0)"
  using Scrape_too_many [of "replicate 75 (bytes_of ''00'')" tracker0 world0] by simp

section \<open>Transaction IDs\<close>

text \<open>
  Claim C8. Whatever the random source puts out, the transaction ID that
  \<open>transactionID\<close> returns (for the connect request and for every scrape request) is
  below \<open>2 ^ 31\<close>: its most significant bit is zero.
\<close>

theorem transactionID_31_bits:
  "unat (fst (transactionID w)) < 2 ^ 31 \<and> \<not> bit (fst (transactionID w)) 31"
proof -
  let ?t = "fst (transactionID w)"
  have b: "\<not> bit ?t 31"
    by (simp add: transactionID_def rand_Int31_def rand_Int63_def bit_simps)
  have "take_bit 31 ?t = ?t"
  proof (rule bit_word_eqI)
    fix n assume "n < LENGTH(32)"
    then have "n < 31 \<or> n = 31" by auto
    then show "bit (take_bit 31 ?t) n = bit ?t n"
      using b by (auto simp: bit_take_bit_iff)
  qed
  then have "unat ?t = take_bit 31 (unat ?t)"
    by (metis unsigned_take_bit_eq)
  then have "unat ?t < 2 ^ 31"
    by (metis take_bit_nat_less_exp)
  with b show ?thesis by simp
qed

end
